theory Spec2Isabelle
  imports Main "HOL-Library.Word"
begin

unbundle bit_operations_syntax

section \<open>The STM32 CRYP driver (drivers/crypto/crypto_stm32.c)\<close>

text \<open>
  A shallow embedding of the driver. Memory buffers are byte lists whose length is the
  size of the object behind the pointer; a C call either returns, or stops at an
  assertion (\<open>__ASSERT_NO_MSG\<close>), or leaves the behaviour defined by C (an access outside
  an object, a null pointer, signed overflow). The buffers of a call (input, output, IV,
  key) are separate objects.
\<close>

type_synonym u8 = "8 word"
type_synonym u16 = "16 word"
type_synonym u32 = "32 word"

datatype 'a outcome = Returns 'a | AssertFailed | Undefined

subsection \<open>Constants\<close>

definition BLOCK_LEN_BYTES :: int where
  "BLOCK_LEN_BYTES = 16"

text \<open>
  Modelled from the spec: \<open>CRYPTO_STM32_AES_MAX_KEY_LEN\<close> is declared in
  crypto_stm32_priv.h, which is not among the sources; the spec gives the session key
  as a fixed 32-byte buffer.
\<close>

definition CRYPTO_STM32_AES_MAX_KEY_LEN :: int where
  "CRYPTO_STM32_AES_MAX_KEY_LEN = 32"

text \<open>The error numbers of errno.h that the driver returns negated.\<close>

definition EIO :: int where
  "EIO = 5"

definition EINVAL :: int where
  "EINVAL = 22"

definition ENOSPC :: int where
  "ENOSPC = 28"

definition INT_MAX :: int where
  "INT_MAX = 2147483647"

definition INT_MIN :: int where
  "INT_MIN = - 2147483648"

subsection \<open>Memory primitives\<close>

text \<open>
  \<open>memcpy dst src n\<close>: the length is a \<open>size_t\<close>, so a negative \<open>int\<close> becomes a length
  no object has; copying more than either object holds is outside C's defined
  behaviour (\<open>None\<close>).
\<close>

definition memcpy :: "u8 list \<Rightarrow> u8 list \<Rightarrow> int \<Rightarrow> u8 list option" where
  "memcpy dst src n =
     (if n < 0 \<or> int (length src) < n \<or> int (length dst) < n then None
      else Some (take (nat n) src @ drop (nat n) dst))"

text \<open>
  Modelled from the spec: \<open>sys_mem_swap\<close> comes from sys/byteorder.h, which is not among
  the sources; it reverses the byte order of the \<open>len\<close> bytes at \<open>buf + i\<close> in place.
\<close>

definition sys_mem_swap :: "u8 list \<Rightarrow> int \<Rightarrow> nat \<Rightarrow> u8 list option" where
  "sys_mem_swap buf i len =
     (if 0 \<le> i \<and> nat i + len \<le> length buf
      then Some (take (nat i) buf @ rev (take len (drop (nat i) buf)) @ drop (nat i + len) buf)
      else None)"

subsection \<open>The byte-order transform\<close>

text \<open>The loop \<open>for (i = 0; i < dst_len; i += sizeof(u32_t)) sys_mem_swap(&dst_buf[i], 4)\<close>.\<close>

function copy_reverse_words_loop :: "u8 list \<Rightarrow> int \<Rightarrow> int \<Rightarrow> u8 list outcome" where
  "copy_reverse_words_loop dst_buf dst_len i =
     (if i < dst_len
      then (case sys_mem_swap dst_buf i 4 of
              None \<Rightarrow> Undefined
            | Some b \<Rightarrow> copy_reverse_words_loop b dst_len (i + 4))
      else Returns dst_buf)"
  by pat_completeness auto
termination
  by (relation "measure (\<lambda>(b, n, i). nat (n - i))") auto

declare copy_reverse_words_loop.simps [simp del]

text \<open>
  \<open>copy_reverse_words asserts dst_buf dst_len src_buf src_len\<close>. The first argument says
  whether the build compiles assertions in (\<open>CONFIG_ASSERT\<close>, a build option that is not
  among the sources): with it, a violated \<open>__ASSERT_NO_MSG\<close> stops the call; without it the
  statements that follow run.
\<close>

definition copy_reverse_words :: "bool \<Rightarrow> u8 list \<Rightarrow> int \<Rightarrow> u8 list \<Rightarrow> int \<Rightarrow> u8 list outcome" where
  "copy_reverse_words asserts dst_buf dst_len src_buf src_len =
     (if asserts \<and> \<not> (dst_len \<ge> src_len) then AssertFailed
      else if asserts \<and> \<not> (dst_len mod 4 = 0) then AssertFailed
      else (case memcpy dst_buf src_buf src_len of
              None \<Rightarrow> Undefined
            | Some d \<Rightarrow> copy_reverse_words_loop d dst_len 0))"

text \<open>
  The closed form of the loop, used to state results: every group of four bytes reversed.
\<close>

fun reverse_words :: "u8 list \<Rightarrow> u8 list" where
  "reverse_words (a # b # c # d # xs) = d # c # b # a # reverse_words xs"
| "reverse_words xs = xs"

subsection \<open>Types of the vendor HAL and of the cipher API\<close>

text \<open>
  Modelled from the spec: the vendor HAL (\<open>HAL_CRYP_*\<close>) is not among the sources; the spec
  treats it as an opaque synchronous accelerator interface whose calls report ok or an
  error. The handle carries the \<open>State\<close> field the driver reads; everything else behind
  it (the peripheral) is the type parameter.
\<close>

datatype HAL_StatusTypeDef = HAL_OK | HAL_ERROR | HAL_BUSY | HAL_TIMEOUT

datatype HAL_CRYP_STATETypeDef = HAL_CRYP_STATE_RESET | HAL_CRYP_STATE_READY | HAL_CRYP_STATE_BUSY

record 'hw CRYP_HandleTypeDef =
  State :: HAL_CRYP_STATETypeDef
  Instance :: 'hw

text \<open>
  The fields of the session configuration that the driver writes. A pointer field holds
  the bytes of the buffer it points to (\<open>None\<close> is the null pointer left by \<open>memset\<close>):
  \<open>pInitVect\<close> points to the local block of the mode operation, \<open>pKey\<close> to the key
  buffer of the session.
\<close>

record CRYP_ConfigTypeDef =
  DataType :: u32
  KeySize :: u32
  pKey :: "u8 list option"
  pInitVect :: "u8 list option"
  Algorithm :: u32
  DataWidthUnit :: u32

definition zero_config :: CRYP_ConfigTypeDef where
  "zero_config = \<lparr>DataType = 0, KeySize = 0, pKey = None, pInitVect = None,
                   Algorithm = 0, DataWidthUnit = 0\<rparr>"

text \<open>
  Modelled from the spec: the cipher API types (crypto/cipher.h) are not among the
  sources. The enumerations have the enumerators the driver names (its comment names
  the CCM and GCM modes too), and \<open>CRYPTO_CIPHER_ALGO_OTHER\<close> stands for any algorithm
  code that is not AES; the context has the fields the driver reads and writes:
  the key and its length, the capability flags, the counter bit-length of CTR mode, the
  handlers, and the back-references to the session (its index in the table) and to the
  device.
\<close>

datatype cipher_algo = CRYPTO_CIPHER_ALGO_AES | CRYPTO_CIPHER_ALGO_OTHER

datatype cipher_mode =
  CRYPTO_CIPHER_MODE_ECB | CRYPTO_CIPHER_MODE_CBC | CRYPTO_CIPHER_MODE_CTR
| CRYPTO_CIPHER_MODE_CCM | CRYPTO_CIPHER_MODE_GCM

datatype cipher_op = CRYPTO_CIPHER_OP_DECRYPT | CRYPTO_CIPHER_OP_ENCRYPT

text \<open>The mode operations a handler field of the context can point to.\<close>

datatype crypt_hndlr =
  HNDLR_ecb_encrypt | HNDLR_ecb_decrypt | HNDLR_cbc_encrypt | HNDLR_cbc_decrypt
| HNDLR_ctr_encrypt | HNDLR_ctr_decrypt

record cipher_ops =
  block_crypt_hndlr :: "crypt_hndlr option"
  cbc_crypt_hndlr :: "crypt_hndlr option"
  ctr_crypt_hndlr :: "crypt_hndlr option"

record cipher_ctx =
  ops :: cipher_ops
  key_bit_stream :: "u8 list"
  device :: "nat option"
  drv_sessn_state :: "nat option"
  ctr_len :: u32
  keylen :: u16
  flags :: u16

record cipher_pkt =
  in_buf :: "u8 list"
  in_len :: int
  out_buf :: "u8 list"
  out_len :: int

text \<open>
  What the driver takes from headers and libraries that are not among the sources, as
  parameters: the HAL calls (a call gets the handle and its arguments and gives the
  status and the handle after it; encryption and decryption also give the bytes they
  wrote at the output pointer), the reset macros of the clock controller, the
  configuration codes of the HAL, the capability bits of the cipher API, and whether the
  build compiles assertions in.
\<close>

record 'hw platform =
  HAL_CRYP_Init :: "'hw CRYP_HandleTypeDef \<Rightarrow> HAL_StatusTypeDef \<times> 'hw CRYP_HandleTypeDef"
  HAL_CRYP_DeInit :: "'hw CRYP_HandleTypeDef \<Rightarrow> HAL_StatusTypeDef \<times> 'hw CRYP_HandleTypeDef"
  HAL_CRYP_SetConfig :: "'hw CRYP_HandleTypeDef \<Rightarrow> CRYP_ConfigTypeDef
                          \<Rightarrow> HAL_StatusTypeDef \<times> 'hw CRYP_HandleTypeDef"
  HAL_CRYP_Encrypt :: "'hw CRYP_HandleTypeDef \<Rightarrow> u8 list \<Rightarrow> int
                        \<Rightarrow> HAL_StatusTypeDef \<times> 'hw CRYP_HandleTypeDef \<times> u8 list"
  HAL_CRYP_Decrypt :: "'hw CRYP_HandleTypeDef \<Rightarrow> u8 list \<Rightarrow> int
                        \<Rightarrow> HAL_StatusTypeDef \<times> 'hw CRYP_HandleTypeDef \<times> u8 list"
  HAL_RCC_CRYP_FORCE_RESET :: "'hw \<Rightarrow> 'hw"
  HAL_RCC_CRYP_RELEASE_RESET :: "'hw \<Rightarrow> 'hw"
  CRYP_KEYSIZE_128B :: u32
  CRYP_KEYSIZE_192B :: u32
  CRYP_KEYSIZE_256B :: u32
  CRYP_AES_ECB :: u32
  CRYP_AES_CBC :: u32
  CRYP_AES_CTR :: u32
  CRYP_DATATYPE_8B :: u32
  CRYP_DATAWIDTHUNIT_BYTE :: u32
  CAP_RAW_KEY :: u32
  CAP_SEPARATE_IO_BUFS :: u32
  CAP_SYNC_OPS :: u32
  CONFIG_ASSERT :: bool

definition CRYP_SUPPORT :: "'hw platform \<Rightarrow> u32" where
  "CRYP_SUPPORT p = (CAP_RAW_KEY p OR CAP_SEPARATE_IO_BUFS p OR CAP_SYNC_OPS p)"

subsection \<open>The state of the driver\<close>

record crypto_stm32_session =
  config :: CRYP_ConfigTypeDef
  key :: "u8 list"
  in_use :: bool

text \<open>
  The device data (\<open>hcryp\<close>) and the global table \<open>crypto_stm32_sessions\<close>. The model is
  sequential: a driver call runs to its end, so \<open>k_sem_take\<close> finds the semaphore free and
  the two semaphores carry no state between calls; what a call does to them, and every
  call into the HAL, is recorded in order in \<open>trace\<close>.
\<close>

datatype sem = device_sem | session_sem

datatype event =
  K_SEM_TAKE sem
| K_SEM_GIVE sem
| CALL_HAL_CRYP_Init
| CALL_HAL_CRYP_DeInit
| CALL_HAL_CRYP_SetConfig CRYP_ConfigTypeDef
| CALL_HAL_CRYP_Encrypt "u8 list" int
| CALL_HAL_CRYP_Decrypt "u8 list" int
| CALL_HAL_RCC_CRYP_FORCE_RESET
| CALL_HAL_RCC_CRYP_RELEASE_RESET

record 'hw driver =
  hcryp :: "'hw CRYP_HandleTypeDef"
  crypto_stm32_sessions :: "crypto_stm32_session list"
  trace :: "event list"

text \<open>
  \<open>CRYPTO_MAX_SESSION\<close> (\<open>CONFIG_CRYPTO_STM32_MAX_SESSION\<close>, a build option that is not among
  the sources) is the length of the table.
\<close>

definition CRYPTO_MAX_SESSION :: "'hw driver \<Rightarrow> nat" where
  "CRYPTO_MAX_SESSION st = length (crypto_stm32_sessions st)"

definition log_event :: "event \<Rightarrow> 'hw driver \<Rightarrow> 'hw driver" where
  "log_event e st = st\<lparr>trace := trace st @ [e]\<rparr>"

definition k_sem_take :: "sem \<Rightarrow> 'hw driver \<Rightarrow> 'hw driver" where
  "k_sem_take s st = log_event (K_SEM_TAKE s) st"

definition k_sem_give :: "sem \<Rightarrow> 'hw driver \<Rightarrow> 'hw driver" where
  "k_sem_give s st = log_event (K_SEM_GIVE s) st"

text \<open>
  \<open>CRYPTO_STM32_SESSN(ctx)\<close>: the session behind \<open>ctx->drv_sessn_state\<close>, when that points
  into the table.
\<close>

definition CRYPTO_STM32_SESSN :: "'hw driver \<Rightarrow> cipher_ctx \<Rightarrow> nat option" where
  "CRYPTO_STM32_SESSN st ctx =
     (case drv_sessn_state ctx of
        None \<Rightarrow> None
      | Some i \<Rightarrow> if i < CRYPTO_MAX_SESSION st then Some i else None)"

definition update_session ::
  "nat \<Rightarrow> (crypto_stm32_session \<Rightarrow> crypto_stm32_session) \<Rightarrow> 'hw driver \<Rightarrow> 'hw driver" where
  "update_session i f st =
     st\<lparr>crypto_stm32_sessions := (crypto_stm32_sessions st)[i := f (crypto_stm32_sessions st ! i)]\<rparr>"

text \<open>The HAL writes \<open>written\<close> at the output pointer, whose object is \<open>out\<close>.\<close>

definition hal_output :: "u8 list \<Rightarrow> u8 list \<Rightarrow> u8 list option" where
  "hal_output out written =
     (if length written \<le> length out then Some (written @ drop (length written) out) else None)"

subsection \<open>Programming the accelerator\<close>

text \<open>
  \<open>do_encrypt\<close> and \<open>do_decrypt\<close>. The HAL call reads \<open>Size = in_len\<close> bytes at the input
  pointer and writes its result at the output pointer. The driver tests neither length,
  so a length that the object behind the input pointer does not hold (no object holds a
  negative number of bytes) is an access outside the object, as is a result longer than
  the object behind the output pointer.
\<close>

definition do_encrypt ::
  "'hw platform \<Rightarrow> 'hw driver \<Rightarrow> cipher_ctx \<Rightarrow> u8 list \<Rightarrow> int \<Rightarrow> u8 list
     \<Rightarrow> (int \<times> 'hw driver \<times> u8 list) outcome" where
  "do_encrypt p st ctx in_buf' in_len' out_buf' =
     (case device ctx of
        None \<Rightarrow> Undefined
      | Some dev \<Rightarrow>
     (case CRYPTO_STM32_SESSN st ctx of
        None \<Rightarrow> Undefined
      | Some i \<Rightarrow>
          let st1 = k_sem_take device_sem st;
              cfg = config (crypto_stm32_sessions st1 ! i);
              (status, h1) = HAL_CRYP_SetConfig p (hcryp st1) cfg;
              st2 = log_event (CALL_HAL_CRYP_SetConfig cfg) (st1\<lparr>hcryp := h1\<rparr>)
          in if status \<noteq> HAL_OK then Returns (- EIO, k_sem_give device_sem st2, out_buf')
             else if in_len' < 0 \<or> int (length in_buf') < in_len' then Undefined
             else
               let (status', h2, written) = HAL_CRYP_Encrypt p (hcryp st2) in_buf' in_len';
                   st3 = log_event (CALL_HAL_CRYP_Encrypt in_buf' in_len') (st2\<lparr>hcryp := h2\<rparr>)
               in (case hal_output out_buf' written of
                     None \<Rightarrow> Undefined
                   | Some out' \<Rightarrow>
                       if status' \<noteq> HAL_OK then Returns (- EIO, k_sem_give device_sem st3, out')
                       else Returns (0, k_sem_give device_sem st3, out'))))"

definition do_decrypt ::
  "'hw platform \<Rightarrow> 'hw driver \<Rightarrow> cipher_ctx \<Rightarrow> u8 list \<Rightarrow> int \<Rightarrow> u8 list
     \<Rightarrow> (int \<times> 'hw driver \<times> u8 list) outcome" where
  "do_decrypt p st ctx in_buf' in_len' out_buf' =
     (case device ctx of
        None \<Rightarrow> Undefined
      | Some dev \<Rightarrow>
     (case CRYPTO_STM32_SESSN st ctx of
        None \<Rightarrow> Undefined
      | Some i \<Rightarrow>
          let st1 = k_sem_take device_sem st;
              cfg = config (crypto_stm32_sessions st1 ! i);
              (status, h1) = HAL_CRYP_SetConfig p (hcryp st1) cfg;
              st2 = log_event (CALL_HAL_CRYP_SetConfig cfg) (st1\<lparr>hcryp := h1\<rparr>)
          in if status \<noteq> HAL_OK then Returns (- EIO, k_sem_give device_sem st2, out_buf')
             else if in_len' < 0 \<or> int (length in_buf') < in_len' then Undefined
             else
               let (status', h2, written) = HAL_CRYP_Decrypt p (hcryp st2) in_buf' in_len';
                   st3 = log_event (CALL_HAL_CRYP_Decrypt in_buf' in_len') (st2\<lparr>hcryp := h2\<rparr>)
               in (case hal_output out_buf' written of
                     None \<Rightarrow> Undefined
                   | Some out' \<Rightarrow>
                       if status' \<noteq> HAL_OK then Returns (- EIO, k_sem_give device_sem st3, out')
                       else Returns (0, k_sem_give device_sem st3, out'))))"

subsection \<open>The mode operations\<close>

text \<open>
  A mode operation gives the value it returns, the state and the packet after it. The
  output buffer of the packet holds what the call wrote, also when the HAL failed.
\<close>

definition crypto_stm32_ecb_encrypt ::
  "'hw platform \<Rightarrow> 'hw driver \<Rightarrow> cipher_ctx \<Rightarrow> cipher_pkt
     \<Rightarrow> (int \<times> 'hw driver \<times> cipher_pkt) outcome" where
  "crypto_stm32_ecb_encrypt p st ctx pkt =
     (if in_len pkt > 16 then Returns (- EINVAL, st, pkt)
      else
        (case do_encrypt p st ctx (in_buf pkt) (in_len pkt) (out_buf pkt) of
           Returns (ret, st', out') \<Rightarrow>
             if ret = 0 then Returns (ret, st', pkt\<lparr>out_buf := out', out_len := 16\<rparr>)
             else Returns (ret, st', pkt\<lparr>out_buf := out'\<rparr>)
         | AssertFailed \<Rightarrow> AssertFailed
         | Undefined \<Rightarrow> Undefined))"

definition crypto_stm32_ecb_decrypt ::
  "'hw platform \<Rightarrow> 'hw driver \<Rightarrow> cipher_ctx \<Rightarrow> cipher_pkt
     \<Rightarrow> (int \<times> 'hw driver \<times> cipher_pkt) outcome" where
  "crypto_stm32_ecb_decrypt p st ctx pkt =
     (if in_len pkt > 16 then Returns (- EINVAL, st, pkt)
      else
        (case do_decrypt p st ctx (in_buf pkt) (in_len pkt) (out_buf pkt) of
           Returns (ret, st', out') \<Rightarrow>
             if ret = 0 then Returns (ret, st', pkt\<lparr>out_buf := out', out_len := 16\<rparr>)
             else Returns (ret, st', pkt\<lparr>out_buf := out'\<rparr>)
         | AssertFailed \<Rightarrow> AssertFailed
         | Undefined \<Rightarrow> Undefined))"

text \<open>
  \<open>session->config.pInitVect = vec\<close>, for the session behind the context.
\<close>

definition set_pInitVect :: "nat \<Rightarrow> u8 list \<Rightarrow> 'hw driver \<Rightarrow> 'hw driver" where
  "set_pInitVect i vec st =
     update_session i (\<lambda>s. s\<lparr>config := (config s)\<lparr>pInitVect := Some vec\<rparr>\<rparr>) st"

text \<open>
  The local block \<open>vec\<close> of the CBC operations is not initialised in the source; the
  transform overwrites all of its 16 bytes before anything reads them, so the model
  starts it at zero.
\<close>

definition crypto_stm32_cbc_encrypt ::
  "'hw platform \<Rightarrow> 'hw driver \<Rightarrow> cipher_ctx \<Rightarrow> cipher_pkt \<Rightarrow> u8 list
     \<Rightarrow> (int \<times> 'hw driver \<times> cipher_pkt) outcome" where
  "crypto_stm32_cbc_encrypt p st ctx pkt iv =
     (case copy_reverse_words (CONFIG_ASSERT p) (replicate 16 0) 16 iv BLOCK_LEN_BYTES of
        AssertFailed \<Rightarrow> AssertFailed
      | Undefined \<Rightarrow> Undefined
      | Returns vec \<Rightarrow>
     (case CRYPTO_STM32_SESSN st ctx of
        None \<Rightarrow> Undefined
      | Some i \<Rightarrow>
     (case memcpy (out_buf pkt) iv 16 of
        None \<Rightarrow> Undefined
      | Some out1 \<Rightarrow>
     (case do_encrypt p (set_pInitVect i vec st) ctx (in_buf pkt) (in_len pkt) (drop 16 out1) of
        AssertFailed \<Rightarrow> AssertFailed
      | Undefined \<Rightarrow> Undefined
      | Returns (ret, st', out') \<Rightarrow>
          if ret = 0
          then (if in_len pkt + 16 > INT_MAX then Undefined
                else Returns (ret, st', pkt\<lparr>out_buf := take 16 out1 @ out',
                                             out_len := in_len pkt + 16\<rparr>))
          else Returns (ret, st', pkt\<lparr>out_buf := take 16 out1 @ out'\<rparr>)))))"

definition crypto_stm32_cbc_decrypt ::
  "'hw platform \<Rightarrow> 'hw driver \<Rightarrow> cipher_ctx \<Rightarrow> cipher_pkt \<Rightarrow> u8 list
     \<Rightarrow> (int \<times> 'hw driver \<times> cipher_pkt) outcome" where
  "crypto_stm32_cbc_decrypt p st ctx pkt iv =
     (case copy_reverse_words (CONFIG_ASSERT p) (replicate 16 0) 16 iv BLOCK_LEN_BYTES of
        AssertFailed \<Rightarrow> AssertFailed
      | Undefined \<Rightarrow> Undefined
      | Returns vec \<Rightarrow>
     (case CRYPTO_STM32_SESSN st ctx of
        None \<Rightarrow> Undefined
      | Some i \<Rightarrow>
          if length (in_buf pkt) < 16 then Undefined
          else
     (case do_decrypt p (set_pInitVect i vec st) ctx (drop 16 (in_buf pkt)) (in_len pkt) (out_buf pkt) of
        AssertFailed \<Rightarrow> AssertFailed
      | Undefined \<Rightarrow> Undefined
      | Returns (ret, st', out') \<Rightarrow>
          if ret = 0
          then (if in_len pkt - 16 < INT_MIN then Undefined
                else Returns (ret, st', pkt\<lparr>out_buf := out', out_len := in_len pkt - 16\<rparr>))
          else Returns (ret, st', pkt\<lparr>out_buf := out'\<rparr>))))"

text \<open>
  \<open>int ivlen = ctx->keylen - (ctx->mode_params.ctr_info.ctr_len >> 3)\<close>: the 16-bit key
  length is promoted, the subtraction is done in 32 bits without sign, and the result
  is read back as an \<open>int\<close>.
\<close>

definition ctr_ivlen :: "cipher_ctx \<Rightarrow> int" where
  "ctr_ivlen ctx = sint ((ucast (keylen ctx) :: u32) - drop_bit 3 (ctr_len ctx))"

definition crypto_stm32_ctr_encrypt ::
  "'hw platform \<Rightarrow> 'hw driver \<Rightarrow> cipher_ctx \<Rightarrow> cipher_pkt \<Rightarrow> u8 list
     \<Rightarrow> (int \<times> 'hw driver \<times> cipher_pkt) outcome" where
  "crypto_stm32_ctr_encrypt p st ctx pkt iv =
     (let ctr0 = replicate 16 0;
          ivlen = ctr_ivlen ctx
      in
     (case copy_reverse_words (CONFIG_ASSERT p) ctr0 16 iv ivlen of
        AssertFailed \<Rightarrow> AssertFailed
      | Undefined \<Rightarrow> Undefined
      | Returns ctr \<Rightarrow>
     (case CRYPTO_STM32_SESSN st ctx of
        None \<Rightarrow> Undefined
      | Some i \<Rightarrow>
     (case do_encrypt p (set_pInitVect i ctr st) ctx (in_buf pkt) (in_len pkt) (out_buf pkt) of
        AssertFailed \<Rightarrow> AssertFailed
      | Undefined \<Rightarrow> Undefined
      | Returns (ret, st', out') \<Rightarrow>
          if ret = 0 then Returns (ret, st', pkt\<lparr>out_buf := out', out_len := in_len pkt\<rparr>)
          else Returns (ret, st', pkt\<lparr>out_buf := out'\<rparr>)))))"

definition crypto_stm32_ctr_decrypt ::
  "'hw platform \<Rightarrow> 'hw driver \<Rightarrow> cipher_ctx \<Rightarrow> cipher_pkt \<Rightarrow> u8 list
     \<Rightarrow> (int \<times> 'hw driver \<times> cipher_pkt) outcome" where
  "crypto_stm32_ctr_decrypt p st ctx pkt iv =
     (let ctr0 = replicate 16 0;
          ivlen = ctr_ivlen ctx
      in
     (case copy_reverse_words (CONFIG_ASSERT p) ctr0 16 iv ivlen of
        AssertFailed \<Rightarrow> AssertFailed
      | Undefined \<Rightarrow> Undefined
      | Returns ctr \<Rightarrow>
     (case CRYPTO_STM32_SESSN st ctx of
        None \<Rightarrow> Undefined
      | Some i \<Rightarrow>
     (case do_decrypt p (set_pInitVect i ctr st) ctx (in_buf pkt) (in_len pkt) (out_buf pkt) of
        AssertFailed \<Rightarrow> AssertFailed
      | Undefined \<Rightarrow> Undefined
      | Returns (ret, st', out') \<Rightarrow>
          if ret = 0 then Returns (ret, st', pkt\<lparr>out_buf := out', out_len := in_len pkt\<rparr>)
          else Returns (ret, st', pkt\<lparr>out_buf := out'\<rparr>)))))"

subsection \<open>The session pool\<close>

text \<open>
  The loop of \<open>crypto_stm32_get_unused_session_index\<close>, from index \<open>i\<close> on: the first slot
  that is not in use is claimed and its index returned; \<open>-1\<close> when there is none.
\<close>

function get_unused_session_index_loop :: "'hw driver \<Rightarrow> nat \<Rightarrow> int \<times> 'hw driver" where
  "get_unused_session_index_loop st i =
     (if i < CRYPTO_MAX_SESSION st
      then (if \<not> in_use (crypto_stm32_sessions st ! i)
            then (int i, k_sem_give session_sem (update_session i (\<lambda>s. s\<lparr>in_use := True\<rparr>) st))
            else get_unused_session_index_loop st (i + 1))
      else (- 1, k_sem_give session_sem st))"
  by pat_completeness auto
termination
  by (relation "measure (\<lambda>(st, i). CRYPTO_MAX_SESSION st - i)") auto

declare get_unused_session_index_loop.simps [simp del]

definition crypto_stm32_get_unused_session_index :: "'hw driver \<Rightarrow> int \<times> 'hw driver" where
  "crypto_stm32_get_unused_session_index st =
     get_unused_session_index_loop (k_sem_take session_sem st) 0"

subsection \<open>Session setup and free\<close>

text \<open>The \<open>switch (ctx->keylen)\<close> of the setup: no case for another length.\<close>

definition setup_KeySize :: "'hw platform \<Rightarrow> cipher_ctx \<Rightarrow> CRYP_ConfigTypeDef \<Rightarrow> CRYP_ConfigTypeDef" where
  "setup_KeySize p ctx cfg =
     (if keylen ctx = 16 then cfg\<lparr>KeySize := CRYP_KEYSIZE_128B p\<rparr>
      else if keylen ctx = 24 then cfg\<lparr>KeySize := CRYP_KEYSIZE_192B p\<rparr>
      else if keylen ctx = 32 then cfg\<lparr>KeySize := CRYP_KEYSIZE_256B p\<rparr>
      else cfg)"

text \<open>The two \<open>switch (mode)\<close> of the setup: the algorithm code and the handler.\<close>

definition setup_mode ::
  "'hw platform \<Rightarrow> cipher_mode \<Rightarrow> cipher_op \<Rightarrow> CRYP_ConfigTypeDef \<times> cipher_ctx
     \<Rightarrow> CRYP_ConfigTypeDef \<times> cipher_ctx" where
  "setup_mode p mode op_type cc =
     (let (cfg, ctx) = cc in
      if op_type = CRYPTO_CIPHER_OP_ENCRYPT then
        (case mode of
           CRYPTO_CIPHER_MODE_ECB \<Rightarrow>
             (cfg\<lparr>Algorithm := CRYP_AES_ECB p\<rparr>,
              ctx\<lparr>ops := (ops ctx)\<lparr>block_crypt_hndlr := Some HNDLR_ecb_encrypt\<rparr>\<rparr>)
         | CRYPTO_CIPHER_MODE_CBC \<Rightarrow>
             (cfg\<lparr>Algorithm := CRYP_AES_CBC p\<rparr>,
              ctx\<lparr>ops := (ops ctx)\<lparr>cbc_crypt_hndlr := Some HNDLR_cbc_encrypt\<rparr>\<rparr>)
         | CRYPTO_CIPHER_MODE_CTR \<Rightarrow>
             (cfg\<lparr>Algorithm := CRYP_AES_CTR p\<rparr>,
              ctx\<lparr>ops := (ops ctx)\<lparr>ctr_crypt_hndlr := Some HNDLR_ctr_encrypt\<rparr>\<rparr>)
         | _ \<Rightarrow> (cfg, ctx))
      else
        (case mode of
           CRYPTO_CIPHER_MODE_ECB \<Rightarrow>
             (cfg\<lparr>Algorithm := CRYP_AES_ECB p\<rparr>,
              ctx\<lparr>ops := (ops ctx)\<lparr>block_crypt_hndlr := Some HNDLR_ecb_decrypt\<rparr>\<rparr>)
         | CRYPTO_CIPHER_MODE_CBC \<Rightarrow>
             (cfg\<lparr>Algorithm := CRYP_AES_CBC p\<rparr>,
              ctx\<lparr>ops := (ops ctx)\<lparr>cbc_crypt_hndlr := Some HNDLR_cbc_decrypt\<rparr>\<rparr>)
         | CRYPTO_CIPHER_MODE_CTR \<Rightarrow>
             (cfg\<lparr>Algorithm := CRYP_AES_CTR p\<rparr>,
              ctx\<lparr>ops := (ops ctx)\<lparr>ctr_crypt_hndlr := Some HNDLR_ctr_decrypt\<rparr>\<rparr>)
         | _ \<Rightarrow> (cfg, ctx)))"

text \<open>
  The setup from the \<open>switch (ctx->keylen)\<close> on, for the claimed slot \<open>i\<close>: the codes, the
  handler, the key in accelerator word order, and the binding of the context.
\<close>

definition session_setup_bind ::
  "'hw platform \<Rightarrow> 'hw driver \<Rightarrow> nat \<Rightarrow> nat \<Rightarrow> cipher_ctx \<Rightarrow> cipher_mode \<Rightarrow> cipher_op
     \<Rightarrow> (int \<times> 'hw driver \<times> cipher_ctx) outcome" where
  "session_setup_bind p st i dev ctx mode op_type =
     (let session = crypto_stm32_sessions st ! i;
          (cfg, ctx') = setup_mode p mode op_type (setup_KeySize p ctx (config session), ctx)
      in
     (case copy_reverse_words (CONFIG_ASSERT p) (key session) CRYPTO_STM32_AES_MAX_KEY_LEN
             (key_bit_stream ctx') (uint (keylen ctx')) of
        AssertFailed \<Rightarrow> AssertFailed
      | Undefined \<Rightarrow> Undefined
      | Returns k \<Rightarrow>
          let cfg' = cfg\<lparr>pKey := Some k, DataType := CRYP_DATATYPE_8B p,
                         DataWidthUnit := CRYP_DATAWIDTHUNIT_BYTE p\<rparr>
          in Returns (0, update_session i (\<lambda>s. s\<lparr>config := cfg', key := k\<rparr>) st,
                      ctx'\<lparr>drv_sessn_state := Some i, device := Some dev\<rparr>)))"

definition crypto_stm32_session_setup ::
  "'hw platform \<Rightarrow> 'hw driver \<Rightarrow> nat \<Rightarrow> cipher_ctx \<Rightarrow> cipher_algo \<Rightarrow> cipher_mode \<Rightarrow> cipher_op
     \<Rightarrow> (int \<times> 'hw driver \<times> cipher_ctx) outcome" where
  "crypto_stm32_session_setup p st dev ctx algo mode op_type =
     (if (ucast (flags ctx) :: u32) AND NOT (CRYP_SUPPORT p) \<noteq> 0 then Returns (- EINVAL, st, ctx)
      else if algo \<noteq> CRYPTO_CIPHER_ALGO_AES then Returns (- EINVAL, st, ctx)
      else if mode \<noteq> CRYPTO_CIPHER_MODE_ECB \<and> mode \<noteq> CRYPTO_CIPHER_MODE_CBC
              \<and> mode \<noteq> CRYPTO_CIPHER_MODE_CTR then Returns (- EINVAL, st, ctx)
      else if keylen ctx \<noteq> 16 \<and> keylen ctx \<noteq> 24 \<and> keylen ctx \<noteq> 32 then Returns (- EINVAL, st, ctx)
      else
        let (ctx_idx, st1) = crypto_stm32_get_unused_session_index st
        in if ctx_idx < 0 then Returns (- ENOSPC, st1, ctx)
           else
             let i = nat ctx_idx;
                 st2 = update_session i (\<lambda>s. s\<lparr>config := zero_config\<rparr>) st1
             in if State (hcryp st2) = HAL_CRYP_STATE_RESET
                then
                  let (status, h) = HAL_CRYP_Init p (hcryp st2);
                      st3 = log_event CALL_HAL_CRYP_Init (st2\<lparr>hcryp := h\<rparr>)
                  in if status \<noteq> HAL_OK
                     then Returns (- EIO, update_session i (\<lambda>s. s\<lparr>in_use := False\<rparr>) st3, ctx)
                     else session_setup_bind p st3 i dev ctx mode op_type
                else session_setup_bind p st2 i dev ctx mode op_type)"

text \<open>
  The loop of \<open>crypto_stm32_session_free\<close>, from index \<open>i\<close> on: is a slot in use?
\<close>

function session_free_loop :: "'hw driver \<Rightarrow> nat \<Rightarrow> bool" where
  "session_free_loop st i =
     (if i < CRYPTO_MAX_SESSION st
      then (if in_use (crypto_stm32_sessions st ! i) then True
            else session_free_loop st (i + 1))
      else False)"
  by pat_completeness auto
termination
  by (relation "measure (\<lambda>(st, i). CRYPTO_MAX_SESSION st - i)") auto

declare session_free_loop.simps [simp del]

definition crypto_stm32_session_free ::
  "'hw platform \<Rightarrow> 'hw driver \<Rightarrow> nat \<Rightarrow> cipher_ctx \<Rightarrow> (int \<times> 'hw driver) outcome" where
  "crypto_stm32_session_free p st dev ctx =
     (case CRYPTO_STM32_SESSN st ctx of
        None \<Rightarrow> Undefined
      | Some i \<Rightarrow>
          let st1 = update_session i (\<lambda>s. s\<lparr>in_use := False\<rparr>) st;
              st2 = k_sem_take session_sem st1
          in if session_free_loop st2 0 then Returns (0, k_sem_give session_sem st2)
             else
               let (status, h) = HAL_CRYP_DeInit p (hcryp st2);
                   st3 = log_event CALL_HAL_CRYP_DeInit (st2\<lparr>hcryp := h\<rparr>)
               in if status \<noteq> HAL_OK then Returns (- EIO, k_sem_give session_sem st3)
                  else
                    let h1 = (hcryp st3)\<lparr>Instance := HAL_RCC_CRYP_FORCE_RESET p (Instance (hcryp st3))\<rparr>;
                        st4 = log_event CALL_HAL_RCC_CRYP_FORCE_RESET (st3\<lparr>hcryp := h1\<rparr>);
                        h2 = (hcryp st4)\<lparr>Instance := HAL_RCC_CRYP_RELEASE_RESET p (Instance (hcryp st4))\<rparr>;
                        st5 = log_event CALL_HAL_RCC_CRYP_RELEASE_RESET (st4\<lparr>hcryp := h2\<rparr>)
                    in Returns (0, k_sem_give session_sem st5))"

definition crypto_stm32_query_caps :: "'hw platform \<Rightarrow> u32" where
  "crypto_stm32_query_caps p = CRYP_SUPPORT p"

subsection \<open>Auxiliary notions for the statements\<close>

text \<open>The index of the first slot of the table that is not in use (its length when all are).\<close>

definition first_unused :: "crypto_stm32_session list \<Rightarrow> nat" where
  "first_unused ss = length (takeWhile in_use ss)"

text \<open>
  A platform for running the model on concrete inputs: the accelerator copies the \<open>Size\<close>
  bytes of its input to its output and reports ok (it reports an error and writes nothing
  when its input does not hold \<open>Size\<close> bytes), every other HAL call reports ok,
  initialisation leaves the handle ready and deinitialisation leaves it in reset.
  \<open>faulty_platform\<close> is the same with an accelerator whose initialisation and
  deinitialisation fail.
\<close>

definition loopback_platform :: "unit platform" where
  "loopback_platform =
     \<lparr>HAL_CRYP_Init = (\<lambda>h. (HAL_OK, h\<lparr>State := HAL_CRYP_STATE_READY\<rparr>)),
      HAL_CRYP_DeInit = (\<lambda>h. (HAL_OK, h\<lparr>State := HAL_CRYP_STATE_RESET\<rparr>)),
      HAL_CRYP_SetConfig = (\<lambda>h cfg. (HAL_OK, h)),
      HAL_CRYP_Encrypt = (\<lambda>h inp n. if 0 \<le> n \<and> n \<le> int (length inp)
                                       then (HAL_OK, h, take (nat n) inp) else (HAL_ERROR, h, [])),
      HAL_CRYP_Decrypt = (\<lambda>h inp n. if 0 \<le> n \<and> n \<le> int (length inp)
                                       then (HAL_OK, h, take (nat n) inp) else (HAL_ERROR, h, [])),
      HAL_RCC_CRYP_FORCE_RESET = (\<lambda>hw. hw),
      HAL_RCC_CRYP_RELEASE_RESET = (\<lambda>hw. hw),
      CRYP_KEYSIZE_128B = 0, CRYP_KEYSIZE_192B = 256, CRYP_KEYSIZE_256B = 512,
      CRYP_AES_ECB = 32, CRYP_AES_CBC = 40, CRYP_AES_CTR = 48,
      CRYP_DATATYPE_8B = 128, CRYP_DATAWIDTHUNIT_BYTE = 1,
      CAP_RAW_KEY = 2, CAP_SEPARATE_IO_BUFS = 16, CAP_SYNC_OPS = 32,
      CONFIG_ASSERT = True\<rparr>"

definition faulty_platform :: "unit platform" where
  "faulty_platform =
     loopback_platform\<lparr>HAL_CRYP_Init := (\<lambda>h. (HAL_ERROR, h)),
                        HAL_CRYP_DeInit := (\<lambda>h. (HAL_ERROR, h))\<rparr>"

definition free_slot :: crypto_stm32_session where
  "free_slot = \<lparr>config = zero_config, key = replicate 32 0, in_use = False\<rparr>"

definition bound_slot :: crypto_stm32_session where
  "bound_slot = \<lparr>config = zero_config, key = replicate 32 0, in_use = True\<rparr>"

definition driver_of :: "HAL_CRYP_STATETypeDef \<Rightarrow> crypto_stm32_session list \<Rightarrow> unit driver" where
  "driver_of s ss = \<lparr>hcryp = \<lparr>State = s, Instance = ()\<rparr>, crypto_stm32_sessions = ss, trace = []\<rparr>"

definition aes128_ctx :: cipher_ctx where
  "aes128_ctx =
     \<lparr>ops = \<lparr>block_crypt_hndlr = None, cbc_crypt_hndlr = None, ctr_crypt_hndlr = None\<rparr>,
      key_bit_stream = [0, 1, 2, 3, 4, 5, 6, 7, 8, 9, 10, 11, 12, 13, 14, 15],
      device = None, drv_sessn_state = None, ctr_len = 32, keylen = 16, flags = 2\<rparr>"

definition bound_ctx :: "nat \<Rightarrow> cipher_ctx" where
  "bound_ctx i = aes128_ctx\<lparr>device := Some 0, drv_sessn_state := Some i\<rparr>"

text \<open>
  An accelerator whose initialisation works once: the peripheral behind the handle is
  the number of initialisations made so far, and \<open>HAL_CRYP_Init\<close> reports an error from
  the second on. \<open>driver_at\<close> is a state of the driver over any peripheral, and \<open>cbc_slot\<close>
  the slot as a setup for CBC with the key of \<open>aes128_ctx\<close> leaves it.
\<close>

definition init_once_platform :: "nat platform" where
  "init_once_platform =
     \<lparr>HAL_CRYP_Init = (\<lambda>h. if Instance h = 0
                             then (HAL_OK, h\<lparr>State := HAL_CRYP_STATE_READY, Instance := 1\<rparr>)
                             else (HAL_ERROR, h)),
      HAL_CRYP_DeInit = (\<lambda>h. (HAL_OK, h\<lparr>State := HAL_CRYP_STATE_RESET\<rparr>)),
      HAL_CRYP_SetConfig = (\<lambda>h cfg. (HAL_OK, h)),
      HAL_CRYP_Encrypt = (\<lambda>h inp n. if 0 \<le> n \<and> n \<le> int (length inp)
                                       then (HAL_OK, h, take (nat n) inp) else (HAL_ERROR, h, [])),
      HAL_CRYP_Decrypt = (\<lambda>h inp n. if 0 \<le> n \<and> n \<le> int (length inp)
                                       then (HAL_OK, h, take (nat n) inp) else (HAL_ERROR, h, [])),
      HAL_RCC_CRYP_FORCE_RESET = (\<lambda>hw. hw),
      HAL_RCC_CRYP_RELEASE_RESET = (\<lambda>hw. hw),
      CRYP_KEYSIZE_128B = 0, CRYP_KEYSIZE_192B = 256, CRYP_KEYSIZE_256B = 512,
      CRYP_AES_ECB = 32, CRYP_AES_CBC = 40, CRYP_AES_CTR = 48,
      CRYP_DATATYPE_8B = 128, CRYP_DATAWIDTHUNIT_BYTE = 1,
      CAP_RAW_KEY = 2, CAP_SEPARATE_IO_BUFS = 16, CAP_SYNC_OPS = 32,
      CONFIG_ASSERT = True\<rparr>"

definition driver_at ::
  "HAL_CRYP_STATETypeDef \<Rightarrow> 'hw \<Rightarrow> crypto_stm32_session list \<Rightarrow> event list \<Rightarrow> 'hw driver" where
  "driver_at s hw ss evs = \<lparr>hcryp = \<lparr>State = s, Instance = hw\<rparr>, crypto_stm32_sessions = ss, trace = evs\<rparr>"

definition cbc_slot :: "bool \<Rightarrow> crypto_stm32_session" where
  "cbc_slot u =
     \<lparr>config = \<lparr>DataType = 128, KeySize = 0,
                 pKey = Some ([3, 2, 1, 0, 7, 6, 5, 4, 11, 10, 9, 8, 15, 14, 13, 12] @ replicate 16 0),
                 pInitVect = None, Algorithm = 40, DataWidthUnit = 1\<rparr>,
      key = [3, 2, 1, 0, 7, 6, 5, 4, 11, 10, 9, 8, 15, 14, 13, 12] @ replicate 16 0,
      in_use = u\<rparr>"

definition pkt_of :: "u8 list \<Rightarrow> nat \<Rightarrow> cipher_pkt" where
  "pkt_of inp cap = \<lparr>in_buf = inp, in_len = int (length inp), out_buf = replicate cap 0, out_len = 0\<rparr>"

text \<open>
  The parameters a setup accepts: supported flags, AES, one of the three modes, one of
  the three key lengths; and a key buffer that holds \<open>keylen\<close> bytes.
\<close>

definition valid_request :: "'hw platform \<Rightarrow> cipher_ctx \<Rightarrow> cipher_algo \<Rightarrow> cipher_mode \<Rightarrow> bool" where
  "valid_request p ctx algo mode \<longleftrightarrow>
     (ucast (flags ctx) :: u32) AND NOT (CRYP_SUPPORT p) = 0
     \<and> algo = CRYPTO_CIPHER_ALGO_AES
     \<and> mode \<in> {CRYPTO_CIPHER_MODE_ECB, CRYPTO_CIPHER_MODE_CBC, CRYPTO_CIPHER_MODE_CTR}
     \<and> keylen ctx \<in> {16, 24, 32}
     \<and> unat (keylen ctx) \<le> length (key_bit_stream ctx)"

text \<open>
  A run of \<open>begin_session\<close> calls, each of which returns 0, with no free in between: the
  state after the last one (\<open>None\<close> when a call does not return 0).
\<close>

fun begin_sessions ::
  "'hw platform \<Rightarrow> 'hw driver \<Rightarrow> (nat \<times> cipher_ctx \<times> cipher_algo \<times> cipher_mode \<times> cipher_op) list
     \<Rightarrow> 'hw driver option" where
  "begin_sessions p st [] = Some st"
| "begin_sessions p st ((dev, ctx, algo, mode, op_type) # reqs) =
     (case crypto_stm32_session_setup p st dev ctx algo mode op_type of
        Returns (ret, st', ctx') \<Rightarrow> if ret = 0 then begin_sessions p st' reqs else None
      | AssertFailed \<Rightarrow> None
      | Undefined \<Rightarrow> None)"

section \<open>Properties\<close>

subsection \<open>The byte-order transform is an involution\<close>

lemma length_reverse_words [simp]: "length (reverse_words xs) = length xs"
  by (induction xs rule: reverse_words.induct) simp_all

lemma reverse_words_involution [simp]: "reverse_words (reverse_words xs) = xs"
  by (induction xs rule: reverse_words.induct) simp_all

lemma reverse_words_step:
  assumes "4 \<le> length xs"
  shows "reverse_words xs = rev (take 4 xs) @ reverse_words (drop 4 xs)"
proof -
  from assms obtain a b c d ys where "xs = a # b # c # d # ys"
    by (cases xs rule: reverse_words.cases) auto
  then show ?thesis by simp
qed

lemma copy_reverse_words_loop_closed:
  assumes "0 \<le> i" "i \<le> dst_len" "dst_len \<le> int (length buf)" "(dst_len - i) mod 4 = 0"
  shows "copy_reverse_words_loop buf dst_len i =
           Returns (take (nat i) buf @ reverse_words (take (nat (dst_len - i)) (drop (nat i) buf))
                    @ drop (nat dst_len) buf)"
  using assms
proof (induction buf dst_len i rule: copy_reverse_words_loop.induct)
  case (1 buf dst_len i)
  show ?case
  proof (cases "i < dst_len")
    case False
    with "1.prems" have eq: "i = dst_len" by simp
    have "copy_reverse_words_loop buf dst_len i = Returns buf"
      using False by (simp add: copy_reverse_words_loop.simps [of buf dst_len i])
    then show ?thesis
      using "1.prems" eq by simp
  next
    case True
    with "1.prems" have four: "i + 4 \<le> dst_len" by presburger
    define k where "k = nat i"
    define m where "m = nat (dst_len - i)"
    have ki: "i = int k" using "1.prems" by (simp add: k_def)
    have m4: "4 \<le> m" using four by (simp add: m_def)
    have klen: "k + m \<le> length buf" using "1.prems" four by (simp add: k_def m_def)
    define b where "b = take k buf @ rev (take 4 (drop k buf)) @ drop (k + 4) buf"
    have swap: "sys_mem_swap buf i 4 = Some b"
      using klen m4 by (simp add: sys_mem_swap_def b_def ki)
    have lenb: "length b = length buf"
      using klen m4 by (simp add: b_def)
    have mod4: "(dst_len - (i + 4)) mod 4 = 0"
      using "1.prems"(4) by presburger
    have rec: "copy_reverse_words_loop b dst_len (i + 4) =
        Returns (take (nat (i + 4)) b @ reverse_words (take (nat (dst_len - (i + 4))) (drop (nat (i + 4)) b))
                 @ drop (nat dst_len) b)"
      using "1.IH" [OF True swap] "1.prems" four lenb mod4 by simp
    have n4: "nat (i + 4) = k + 4" by (simp add: ki)
    have nm: "nat (dst_len - (i + 4)) = m - 4" by (simp add: m_def)
    have nd: "nat dst_len = k + m" using "1.prems" by (simp add: k_def m_def)
    have t1: "take (k + 4) b = take k buf @ rev (take 4 (drop k buf))"
      using klen m4 by (simp add: b_def)
    have t2: "drop (k + 4) b = drop (k + 4) buf"
      using klen m4 by (simp add: b_def)
    have t3: "drop (k + m) b = drop (k + m) buf"
    proof -
      have "drop (k + m) b = drop (m - 4) (drop (k + 4) b)"
        using m4 by (simp add: add.commute)
      also have "\<dots> = drop (m - 4) (drop (k + 4) buf)" by (simp only: t2)
      also have "\<dots> = drop (k + m) buf" using m4 by (simp add: add.commute)
      finally show ?thesis .
    qed
    have split: "reverse_words (take m (drop k buf)) =
        rev (take 4 (drop k buf)) @ reverse_words (take (m - 4) (drop (k + 4) buf))"
    proof -
      have "4 \<le> length (take m (drop k buf))" using klen m4 by simp
      from reverse_words_step [OF this] show ?thesis
        using m4 by (simp add: min_def drop_take add.commute)
    qed
    have "copy_reverse_words_loop buf dst_len i = copy_reverse_words_loop b dst_len (i + 4)"
      using True swap by (simp add: copy_reverse_words_loop.simps [of buf dst_len i])
    also have "\<dots> = Returns (take (k + 4) b @ reverse_words (take (m - 4) (drop (k + 4) b))
                 @ drop (k + m) b)"
      using rec by (simp only: n4 nm nd)
    also have "\<dots> = Returns (take k buf @ reverse_words (take m (drop k buf)) @ drop (k + m) buf)"
      by (simp only: t1 t2 t3 split append_assoc)
    finally show ?thesis
      by (simp only: k_def [symmetric] m_def [symmetric] nd [symmetric])
  qed
qed

lemma copy_reverse_words_closed:
  assumes "0 \<le> src_len" "src_len \<le> dst_len" "dst_len \<le> int (length dst)"
    and "src_len \<le> int (length src)" "dst_len mod 4 = 0"
  shows "copy_reverse_words asserts dst dst_len src src_len =
           Returns (reverse_words (take (nat dst_len) (take (nat src_len) src @ drop (nat src_len) dst))
                    @ drop (nat dst_len) dst)"
proof -
  define d where "d = take (nat src_len) src @ drop (nat src_len) dst"
  have cp: "memcpy dst src src_len = Some d"
    using assms by (simp add: memcpy_def d_def)
  have len: "length d = length dst"
    using assms by (simp add: d_def)
  have dd: "drop (nat dst_len) d = drop (nat dst_len) dst"
    using assms by (simp add: d_def)
  have "copy_reverse_words_loop d dst_len 0 =
          Returns (take (nat 0) d @ reverse_words (take (nat (dst_len - 0)) (drop (nat 0) d))
                   @ drop (nat dst_len) d)"
    by (rule copy_reverse_words_loop_closed) (use assms len in simp_all)
  then show ?thesis
    using assms cp dd by (simp add: copy_reverse_words_def d_def)
qed

lemma copy_reverse_words_loop_length:
  "copy_reverse_words_loop buf n i = Returns r \<Longrightarrow> length r = length buf"
proof (induction buf n i rule: copy_reverse_words_loop.induct)
  case (1 buf n i)
  show ?case
  proof (cases "i < n")
    case False
    with "1.prems" show ?thesis by (simp add: copy_reverse_words_loop.simps [of buf n i])
  next
    case True
    with "1.prems" obtain b where b: "sys_mem_swap buf i 4 = Some b"
      and r: "copy_reverse_words_loop b n (i + 4) = Returns r"
      by (auto simp: copy_reverse_words_loop.simps [of buf n i] split: option.splits)
    from b have "length b = length buf"
      by (auto simp: sys_mem_swap_def split: if_splits)
    with "1.IH" [OF True b r] show ?thesis by simp
  qed
qed

lemma copy_reverse_words_length:
  assumes "copy_reverse_words a dst n src m = Returns r"
  shows "length r = length dst"
proof -
  from assms obtain d where d: "memcpy dst src m = Some d" and l: "copy_reverse_words_loop d n 0 = Returns r"
    by (auto simp: copy_reverse_words_def split: if_splits option.splits)
  from d have "length d = length dst" by (auto simp: memcpy_def split: if_splits)
  with copy_reverse_words_loop_length [OF l] show ?thesis by simp
qed

lemma copy_reverse_words_loop_never_asserts:
  "copy_reverse_words_loop buf n i \<noteq> AssertFailed"
proof (induction buf n i rule: copy_reverse_words_loop.induct)
  case (1 buf n i)
  show ?case
  proof (cases "i < n")
    case False
    then show ?thesis by (simp add: copy_reverse_words_loop.simps [of buf n i])
  next
    case True
    show ?thesis
    proof (cases "sys_mem_swap buf i 4")
      case None
      with True show ?thesis by (simp add: copy_reverse_words_loop.simps [of buf n i])
    next
      case (Some b)
      with True "1.IH" [OF True Some] show ?thesis
        by (simp add: copy_reverse_words_loop.simps [of buf n i])
    qed
  qed
qed

lemma copy_reverse_words_asserts:
  "copy_reverse_words a dst dst_len src src_len = AssertFailed
     \<longleftrightarrow> a \<and> (dst_len < src_len \<or> dst_len mod 4 \<noteq> 0)"
  using copy_reverse_words_loop_never_asserts
  by (auto simp: copy_reverse_words_def split: option.splits)

text \<open>
  C10. The byte-order transform is self-inverse: for a region whose length \<open>n\<close> is a
  multiple of 4, with \<open>dst_len = src_len = n\<close>, the transform of the transform of the
  region is the region (whatever the destination buffers of \<open>n\<close> bytes held before, the
  region itself included).
\<close>

theorem copy_reverse_words_self_inverse:
  assumes "length buf = n" and "n mod 4 = 0" and "length d1 = n" and "length d2 = n"
  shows "\<exists>b. copy_reverse_words asserts d1 (int n) buf (int n) = Returns b
             \<and> copy_reverse_words asserts d2 (int n) b (int n) = Returns buf"
proof -
  have m4: "int n mod 4 = 0" using assms(2) by presburger
  have one: "copy_reverse_words asserts d1 (int n) buf (int n) = Returns (reverse_words buf)"
    using copy_reverse_words_closed [of "int n" "int n" d1 buf asserts] assms m4 by simp
  have two: "copy_reverse_words asserts d2 (int n) (reverse_words buf) (int n) = Returns buf"
    using copy_reverse_words_closed [of "int n" "int n" d2 "reverse_words buf" asserts] assms m4
    by simp
  from one two show ?thesis by blast
qed

theorem copy_reverse_words_self_inverse_witness:
  "length [1, 2, 3, 4, 5, 6, 7, 8 :: u8] = 8 \<and> (8::nat) mod 4 = 0
   \<and> length (replicate 8 (0::u8)) = 8
   \<and> (\<exists>b. copy_reverse_words True (replicate 8 0) (int 8) [1, 2, 3, 4, 5, 6, 7, 8] (int 8) = Returns b
          \<and> copy_reverse_words True (replicate 8 0) (int 8) b (int 8) = Returns [1, 2, 3, 4, 5, 6, 7, 8])"
  using copy_reverse_words_self_inverse [of "[1, 2, 3, 4, 5, 6, 7, 8]" 8 "replicate 8 0" "replicate 8 0" True]
  by simp

subsection \<open>Projections of the state and of the concrete inputs\<close>

lemma log_event_simps [simp]:
  "hcryp (log_event e st) = hcryp st"
  "crypto_stm32_sessions (log_event e st) = crypto_stm32_sessions st"
  "trace (log_event e st) = trace st @ [e]"
  "CRYPTO_MAX_SESSION (log_event e st) = CRYPTO_MAX_SESSION st"
  by (simp_all add: log_event_def CRYPTO_MAX_SESSION_def)

lemma k_sem_simps [simp]:
  "hcryp (k_sem_take s st) = hcryp st"
  "crypto_stm32_sessions (k_sem_take s st) = crypto_stm32_sessions st"
  "trace (k_sem_take s st) = trace st @ [K_SEM_TAKE s]"
  "CRYPTO_MAX_SESSION (k_sem_take s st) = CRYPTO_MAX_SESSION st"
  "hcryp (k_sem_give s st) = hcryp st"
  "crypto_stm32_sessions (k_sem_give s st) = crypto_stm32_sessions st"
  "trace (k_sem_give s st) = trace st @ [K_SEM_GIVE s]"
  "CRYPTO_MAX_SESSION (k_sem_give s st) = CRYPTO_MAX_SESSION st"
  by (simp_all add: k_sem_take_def k_sem_give_def)

lemma update_session_simps [simp]:
  "hcryp (update_session i f st) = hcryp st"
  "crypto_stm32_sessions (update_session i f st) =
     (crypto_stm32_sessions st)[i := f (crypto_stm32_sessions st ! i)]"
  "trace (update_session i f st) = trace st"
  "CRYPTO_MAX_SESSION (update_session i f st) = CRYPTO_MAX_SESSION st"
  by (simp_all add: update_session_def CRYPTO_MAX_SESSION_def)

lemma hcryp_update_simps [simp]:
  "CRYPTO_MAX_SESSION (st\<lparr>hcryp := h\<rparr>) = CRYPTO_MAX_SESSION st"
  by (simp add: CRYPTO_MAX_SESSION_def)

lemma set_pInitVect_simps [simp]:
  "hcryp (set_pInitVect i v st) = hcryp st"
  "trace (set_pInitVect i v st) = trace st"
  "CRYPTO_MAX_SESSION (set_pInitVect i v st) = CRYPTO_MAX_SESSION st"
  by (simp_all add: set_pInitVect_def)

lemma set_pInitVect_SESSN [simp]:
  "CRYPTO_STM32_SESSN (set_pInitVect i v st) ctx = CRYPTO_STM32_SESSN st ctx"
  by (simp add: CRYPTO_STM32_SESSN_def split: option.splits)

lemma set_pInitVect_config:
  "i < CRYPTO_MAX_SESSION st \<Longrightarrow>
   config (crypto_stm32_sessions (set_pInitVect i v st) ! i) =
     (config (crypto_stm32_sessions st ! i))\<lparr>pInitVect := Some v\<rparr>"
  by (simp add: set_pInitVect_def CRYPTO_MAX_SESSION_def)

lemma CRYPTO_STM32_SESSN_Some:
  "CRYPTO_STM32_SESSN st ctx = Some i \<longleftrightarrow> drv_sessn_state ctx = Some i \<and> i < CRYPTO_MAX_SESSION st"
  by (auto simp: CRYPTO_STM32_SESSN_def split: option.splits)

lemma bound_ctx_simps [simp]:
  "drv_sessn_state (bound_ctx i) = Some i"
  "device (bound_ctx i) = Some 0"
  "keylen (bound_ctx i) = 16"
  "ctr_len (bound_ctx i) = 32"
  by (simp_all add: bound_ctx_def aes128_ctx_def)

lemma driver_of_simps [simp]:
  "crypto_stm32_sessions (driver_of s ss) = ss"
  "trace (driver_of s ss) = []"
  "hcryp (driver_of s ss) = \<lparr>State = s, Instance = ()\<rparr>"
  "CRYPTO_MAX_SESSION (driver_of s ss) = length ss"
  by (simp_all add: driver_of_def CRYPTO_MAX_SESSION_def)

lemma pkt_of_simps [simp]:
  "in_buf (pkt_of inp cap) = inp"
  "in_len (pkt_of inp cap) = int (length inp)"
  "out_buf (pkt_of inp cap) = replicate cap 0"
  by (simp_all add: pkt_of_def)

lemma loopback_platform_simps [simp]:
  "HAL_CRYP_Init loopback_platform h = (HAL_OK, h\<lparr>State := HAL_CRYP_STATE_READY\<rparr>)"
  "HAL_CRYP_DeInit loopback_platform h = (HAL_OK, h\<lparr>State := HAL_CRYP_STATE_RESET\<rparr>)"
  "HAL_CRYP_SetConfig loopback_platform h cfg = (HAL_OK, h)"
  "HAL_CRYP_Encrypt loopback_platform h inp n =
     (if 0 \<le> n \<and> n \<le> int (length inp) then (HAL_OK, h, take (nat n) inp) else (HAL_ERROR, h, []))"
  "HAL_CRYP_Decrypt loopback_platform h inp n =
     (if 0 \<le> n \<and> n \<le> int (length inp) then (HAL_OK, h, take (nat n) inp) else (HAL_ERROR, h, []))"
  "HAL_RCC_CRYP_FORCE_RESET loopback_platform hw = hw"
  "HAL_RCC_CRYP_RELEASE_RESET loopback_platform hw = hw"
  "CONFIG_ASSERT loopback_platform = True"
  "CRYP_SUPPORT loopback_platform = 50"
  by (simp_all add: loopback_platform_def CRYP_SUPPORT_def)

lemma faulty_platform_simps [simp]:
  "HAL_CRYP_Init faulty_platform h = (HAL_ERROR, h)"
  "HAL_CRYP_DeInit faulty_platform h = (HAL_ERROR, h)"
  "CONFIG_ASSERT faulty_platform = True"
  "CRYP_SUPPORT faulty_platform = 50"
  by (simp_all add: faulty_platform_def loopback_platform_def CRYP_SUPPORT_def)

lemma init_once_platform_simps [simp]:
  "HAL_CRYP_Init init_once_platform h =
     (if Instance h = 0 then (HAL_OK, h\<lparr>State := HAL_CRYP_STATE_READY, Instance := 1\<rparr>) else (HAL_ERROR, h))"
  "HAL_CRYP_DeInit init_once_platform h = (HAL_OK, h\<lparr>State := HAL_CRYP_STATE_RESET\<rparr>)"
  "HAL_RCC_CRYP_FORCE_RESET init_once_platform hw = hw"
  "HAL_RCC_CRYP_RELEASE_RESET init_once_platform hw = hw"
  "CONFIG_ASSERT init_once_platform = True"
  "CRYP_SUPPORT init_once_platform = 50"
  "CRYP_KEYSIZE_128B init_once_platform = 0"
  "CRYP_AES_CBC init_once_platform = 40"
  "CRYP_DATATYPE_8B init_once_platform = 128"
  "CRYP_DATAWIDTHUNIT_BYTE init_once_platform = 1"
  by (simp_all add: init_once_platform_def CRYP_SUPPORT_def)

lemma driver_at_simps [simp]:
  "crypto_stm32_sessions (driver_at s hw ss evs) = ss"
  "trace (driver_at s hw ss evs) = evs"
  "hcryp (driver_at s hw ss evs) = \<lparr>State = s, Instance = hw\<rparr>"
  "CRYPTO_MAX_SESSION (driver_at s hw ss evs) = length ss"
  by (simp_all add: driver_at_def CRYPTO_MAX_SESSION_def)

lemma aes128_ctx_simps [simp]:
  "keylen aes128_ctx = 16"
  "flags aes128_ctx = 2"
  "key_bit_stream aes128_ctx = [0, 1, 2, 3, 4, 5, 6, 7, 8, 9, 10, 11, 12, 13, 14, 15]"
  by (simp_all add: aes128_ctx_def)

lemma slot_simps [simp]:
  "in_use free_slot = False" "in_use bound_slot = True"
  "key free_slot = replicate 32 0" "key bound_slot = replicate 32 0"
  "bound_slot\<lparr>in_use := False\<rparr> = free_slot"
  "free_slot\<lparr>in_use := True\<rparr> = bound_slot"
  by (simp_all add: free_slot_def bound_slot_def)

lemma valid_request_aes128 [simp]:
  "valid_request loopback_platform aes128_ctx CRYPTO_CIPHER_ALGO_AES CRYPTO_CIPHER_MODE_CBC"
  "valid_request faulty_platform aes128_ctx CRYPTO_CIPHER_ALGO_AES CRYPTO_CIPHER_MODE_CBC"
  by (simp_all add: valid_request_def)

subsection \<open>Calls into the accelerator\<close>

lemma do_encrypt_success:
  assumes "do_encrypt p st ctx ib il ob = Returns (0, st', out')"
  shows "\<exists>i. CRYPTO_STM32_SESSN st ctx = Some i \<and>
     (let cfg = config (crypto_stm32_sessions st ! i);
          h1 = snd (HAL_CRYP_SetConfig p (hcryp st) cfg);
          written = snd (snd (HAL_CRYP_Encrypt p h1 ib il))
      in out' = written @ drop (length written) ob \<and> length written \<le> length ob
         \<and> 0 \<le> il \<and> il \<le> int (length ib)
         \<and> trace st' = trace st @ [K_SEM_TAKE device_sem, CALL_HAL_CRYP_SetConfig cfg,
                                     CALL_HAL_CRYP_Encrypt ib il, K_SEM_GIVE device_sem]
         \<and> crypto_stm32_sessions st' = crypto_stm32_sessions st)"
  using assms
  by (auto simp: do_encrypt_def Let_def EIO_def hal_output_def
           split: option.splits prod.splits if_splits)

lemma do_decrypt_success:
  assumes "do_decrypt p st ctx ib il ob = Returns (0, st', out')"
  shows "\<exists>i. CRYPTO_STM32_SESSN st ctx = Some i \<and>
     (let cfg = config (crypto_stm32_sessions st ! i);
          h1 = snd (HAL_CRYP_SetConfig p (hcryp st) cfg);
          written = snd (snd (HAL_CRYP_Decrypt p h1 ib il))
      in out' = written @ drop (length written) ob \<and> length written \<le> length ob
         \<and> 0 \<le> il \<and> il \<le> int (length ib)
         \<and> trace st' = trace st @ [K_SEM_TAKE device_sem, CALL_HAL_CRYP_SetConfig cfg,
                                     CALL_HAL_CRYP_Decrypt ib il, K_SEM_GIVE device_sem]
         \<and> crypto_stm32_sessions st' = crypto_stm32_sessions st)"
  using assms
  by (auto simp: do_decrypt_def Let_def EIO_def hal_output_def
           split: option.splits prod.splits if_splits)

lemma do_encrypt_Returns:
  assumes "do_encrypt p st ctx ib il ob = Returns (ret, st', out')"
  shows "\<exists>i. CRYPTO_STM32_SESSN st ctx = Some i
           \<and> crypto_stm32_sessions st' = crypto_stm32_sessions st
           \<and> (\<exists>rest. trace st' = trace st @ K_SEM_TAKE device_sem
                  # CALL_HAL_CRYP_SetConfig (config (crypto_stm32_sessions st ! i)) # rest)
           \<and> (ret = 0 \<or> ret = - EIO)"
  using assms
  by (auto simp: do_encrypt_def Let_def
           split: option.splits prod.splits if_splits)

lemma do_decrypt_Returns:
  assumes "do_decrypt p st ctx ib il ob = Returns (ret, st', out')"
  shows "\<exists>i. CRYPTO_STM32_SESSN st ctx = Some i
           \<and> crypto_stm32_sessions st' = crypto_stm32_sessions st
           \<and> (\<exists>rest. trace st' = trace st @ K_SEM_TAKE device_sem
                  # CALL_HAL_CRYP_SetConfig (config (crypto_stm32_sessions st ! i)) # rest)
           \<and> (ret = 0 \<or> ret = - EIO)"
  using assms
  by (auto simp: do_decrypt_def Let_def
           split: option.splits prod.splits if_splits)

lemma do_encrypt_not_AssertFailed: "do_encrypt p st ctx ib il ob \<noteq> AssertFailed"
  by (auto simp: do_encrypt_def Let_def split: option.splits prod.splits if_splits)

lemma do_decrypt_not_AssertFailed: "do_decrypt p st ctx ib il ob \<noteq> AssertFailed"
  by (auto simp: do_decrypt_def Let_def split: option.splits prod.splits if_splits)

lemma do_encrypt_eq:
  assumes "device ctx = Some dev" and "drv_sessn_state ctx = Some i" and "i < CRYPTO_MAX_SESSION st"
    and "0 \<le> il" and "il \<le> int (length ib)"
    and "HAL_CRYP_SetConfig p (hcryp st) (config (crypto_stm32_sessions st ! i)) = (s1, h1)"
    and "HAL_CRYP_Encrypt p h1 ib il = (s2, h2, w)"
  shows "do_encrypt p st ctx ib il ob =
     (if s1 \<noteq> HAL_OK
      then Returns (- EIO, st\<lparr>hcryp := h1, trace := trace st @ [K_SEM_TAKE device_sem,
                 CALL_HAL_CRYP_SetConfig (config (crypto_stm32_sessions st ! i)), K_SEM_GIVE device_sem]\<rparr>, ob)
      else if length ob < length w then Undefined
      else Returns (if s2 = HAL_OK then 0 else - EIO,
                    st\<lparr>hcryp := h2, trace := trace st @ [K_SEM_TAKE device_sem,
                       CALL_HAL_CRYP_SetConfig (config (crypto_stm32_sessions st ! i)),
                       CALL_HAL_CRYP_Encrypt ib il, K_SEM_GIVE device_sem]\<rparr>,
                    w @ drop (length w) ob))"
  using assms
  by (simp add: do_encrypt_def CRYPTO_STM32_SESSN_def Let_def hal_output_def
        k_sem_take_def k_sem_give_def log_event_def)

lemma do_decrypt_eq:
  assumes "device ctx = Some dev" and "drv_sessn_state ctx = Some i" and "i < CRYPTO_MAX_SESSION st"
    and "0 \<le> il" and "il \<le> int (length ib)"
    and "HAL_CRYP_SetConfig p (hcryp st) (config (crypto_stm32_sessions st ! i)) = (s1, h1)"
    and "HAL_CRYP_Decrypt p h1 ib il = (s2, h2, w)"
  shows "do_decrypt p st ctx ib il ob =
     (if s1 \<noteq> HAL_OK
      then Returns (- EIO, st\<lparr>hcryp := h1, trace := trace st @ [K_SEM_TAKE device_sem,
                 CALL_HAL_CRYP_SetConfig (config (crypto_stm32_sessions st ! i)), K_SEM_GIVE device_sem]\<rparr>, ob)
      else if length ob < length w then Undefined
      else Returns (if s2 = HAL_OK then 0 else - EIO,
                    st\<lparr>hcryp := h2, trace := trace st @ [K_SEM_TAKE device_sem,
                       CALL_HAL_CRYP_SetConfig (config (crypto_stm32_sessions st ! i)),
                       CALL_HAL_CRYP_Decrypt ib il, K_SEM_GIVE device_sem]\<rparr>,
                    w @ drop (length w) ob))"
  using assms
  by (simp add: do_decrypt_def CRYPTO_STM32_SESSN_def Let_def hal_output_def
        k_sem_take_def k_sem_give_def log_event_def)

subsection \<open>ECB\<close>

text \<open>
  C3. An ECB operation, in either direction, on an input longer than 16 bytes returns
  \<open>-EINVAL\<close> and leaves the state as it was: nothing is added to the trace, so no call
  into the HAL was made, and the handle is untouched. An ECB operation that returns 0
  had an input of at most 16 bytes and reports the output length 16.
\<close>

theorem ecb_one_block:
  "(16 < in_len pkt \<longrightarrow>
      crypto_stm32_ecb_encrypt p st ctx pkt = Returns (- EINVAL, st, pkt)
      \<and> crypto_stm32_ecb_decrypt p st ctx pkt = Returns (- EINVAL, st, pkt))
   \<and> (crypto_stm32_ecb_encrypt p st ctx pkt = Returns (0, st', pkt')
        \<longrightarrow> in_len pkt \<le> 16 \<and> out_len pkt' = 16)
   \<and> (crypto_stm32_ecb_decrypt p st ctx pkt = Returns (0, st', pkt')
        \<longrightarrow> in_len pkt \<le> 16 \<and> out_len pkt' = 16)"
  by (auto simp: crypto_stm32_ecb_encrypt_def crypto_stm32_ecb_decrypt_def EINVAL_def
           split: outcome.splits if_splits)

theorem ecb_one_block_witness:
  "16 < in_len (pkt_of (replicate 17 1) 32)
   \<and> crypto_stm32_ecb_encrypt loopback_platform (driver_of HAL_CRYP_STATE_READY [bound_slot, free_slot])
        (bound_ctx 0) (pkt_of (replicate 17 1) 32)
       = Returns (- EINVAL, driver_of HAL_CRYP_STATE_READY [bound_slot, free_slot], pkt_of (replicate 17 1) 32)
   \<and> crypto_stm32_ecb_decrypt loopback_platform (driver_of HAL_CRYP_STATE_READY [bound_slot, free_slot])
        (bound_ctx 0) (pkt_of (replicate 17 1) 32)
       = Returns (- EINVAL, driver_of HAL_CRYP_STATE_READY [bound_slot, free_slot], pkt_of (replicate 17 1) 32)
   \<and> (\<exists>st' pkt'. crypto_stm32_ecb_encrypt loopback_platform (driver_of HAL_CRYP_STATE_READY [bound_slot, free_slot])
        (bound_ctx 0) (pkt_of [1, 2, 3, 4] 16) = Returns (0, st', pkt') \<and> out_len pkt' = 16)
   \<and> (\<exists>st' pkt'. crypto_stm32_ecb_decrypt loopback_platform (driver_of HAL_CRYP_STATE_READY [bound_slot, free_slot])
        (bound_ctx 0) (pkt_of [1, 2, 3, 4] 16) = Returns (0, st', pkt') \<and> out_len pkt' = 16)"
proof -
  let ?S = "driver_of HAL_CRYP_STATE_READY [bound_slot, free_slot]"
  let ?L = "pkt_of (replicate 17 1) 32"
  let ?K = "pkt_of [1, 2, 3, 4] 16"
  have long: "16 < in_len ?L" by (simp add: pkt_of_def)
  have "\<exists>st' pkt'. crypto_stm32_ecb_encrypt loopback_platform ?S (bound_ctx 0) ?K = Returns (0, st', pkt')"
    by (simp add: crypto_stm32_ecb_encrypt_def do_encrypt_def bound_ctx_def aes128_ctx_def
          CRYPTO_STM32_SESSN_def CRYPTO_MAX_SESSION_def driver_of_def loopback_platform_def
          hal_output_def pkt_of_def EIO_def Let_def)
  then obtain s1 k1 where e: "crypto_stm32_ecb_encrypt loopback_platform ?S (bound_ctx 0) ?K = Returns (0, s1, k1)"
    by blast
  have "\<exists>st' pkt'. crypto_stm32_ecb_decrypt loopback_platform ?S (bound_ctx 0) ?K = Returns (0, st', pkt')"
    by (simp add: crypto_stm32_ecb_decrypt_def do_decrypt_def bound_ctx_def aes128_ctx_def
          CRYPTO_STM32_SESSN_def CRYPTO_MAX_SESSION_def driver_of_def loopback_platform_def
          hal_output_def pkt_of_def EIO_def Let_def)
  then obtain s2 k2 where d: "crypto_stm32_ecb_decrypt loopback_platform ?S (bound_ctx 0) ?K = Returns (0, s2, k2)"
    by blast
  from ecb_one_block [of ?L loopback_platform ?S "bound_ctx 0"] long
  have r: "crypto_stm32_ecb_encrypt loopback_platform ?S (bound_ctx 0) ?L = Returns (- EINVAL, ?S, ?L)"
          "crypto_stm32_ecb_decrypt loopback_platform ?S (bound_ctx 0) ?L = Returns (- EINVAL, ?S, ?L)"
    by blast+
  from ecb_one_block [of ?K loopback_platform ?S "bound_ctx 0" s1 k1] e have o1: "out_len k1 = 16" by blast
  from ecb_one_block [of ?K loopback_platform ?S "bound_ctx 0" s2 k2] d have o2: "out_len k2 = 16" by blast
  from long r e o1 d o2 show ?thesis by blast
qed

subsection \<open>CBC\<close>

lemma cbc_vec:
  assumes "16 \<le> length iv"
  shows "copy_reverse_words a (replicate 16 0) 16 iv BLOCK_LEN_BYTES = Returns (reverse_words (take 16 iv))"
  using copy_reverse_words_closed [of 16 16 "replicate 16 0" iv a] assms
  by (simp add: BLOCK_LEN_BYTES_def)

lemma cbc_vec_Returns:
  assumes "copy_reverse_words a (replicate 16 0) 16 iv BLOCK_LEN_BYTES = Returns vec"
  shows "16 \<le> length iv \<and> vec = reverse_words (take 16 iv)"
proof -
  have "16 \<le> length iv"
    using assms by (auto simp: copy_reverse_words_def memcpy_def BLOCK_LEN_BYTES_def split: if_splits option.splits)
  with cbc_vec [OF this, of a] assms show ?thesis by simp
qed

text \<open>
  C1. After a CBC encryption that returns 0, the first 16 bytes of the output buffer
  are the first 16 bytes of the caller's IV as they are, the bytes the accelerator wrote
  start at offset 16, and the reported output length is the input length plus 16. A
  CBC decryption that returns 0 handed the accelerator the input buffer from offset 16
  on, and reports the input length minus 16. The accelerator is told to read \<open>in_len\<close>
  bytes in both directions, so the input buffer of such an encryption holds \<open>in_len\<close>
  bytes and the input buffer of such a decryption holds \<open>in_len\<close> bytes after the 16 of
  the prefix.
\<close>

theorem cbc_iv_prefix:
  "(crypto_stm32_cbc_encrypt p st ctx pkt iv = Returns (0, st', pkt') \<longrightarrow>
      (\<exists>i. drv_sessn_state ctx = Some i \<and> i < CRYPTO_MAX_SESSION st \<and>
        (let cfg = (config (crypto_stm32_sessions st ! i))\<lparr>pInitVect := Some (reverse_words (take 16 iv))\<rparr>;
             h1 = snd (HAL_CRYP_SetConfig p (hcryp st) cfg);
             written = snd (snd (HAL_CRYP_Encrypt p h1 (in_buf pkt) (in_len pkt)))
         in take 16 (out_buf pkt') = take 16 iv
            \<and> drop 16 (out_buf pkt') = written @ drop (16 + length written) (out_buf pkt)
            \<and> out_len pkt' = in_len pkt + 16
            \<and> 0 \<le> in_len pkt \<and> in_len pkt \<le> int (length (in_buf pkt)))))
   \<and> (crypto_stm32_cbc_decrypt p st ctx pkt iv = Returns (0, st', pkt') \<longrightarrow>
      (\<exists>i. drv_sessn_state ctx = Some i \<and> i < CRYPTO_MAX_SESSION st \<and>
        (let cfg = (config (crypto_stm32_sessions st ! i))\<lparr>pInitVect := Some (reverse_words (take 16 iv))\<rparr>;
             h1 = snd (HAL_CRYP_SetConfig p (hcryp st) cfg);
             written = snd (snd (HAL_CRYP_Decrypt p h1 (drop 16 (in_buf pkt)) (in_len pkt)))
         in trace st' = trace st @ [K_SEM_TAKE device_sem, CALL_HAL_CRYP_SetConfig cfg,
                                     CALL_HAL_CRYP_Decrypt (drop 16 (in_buf pkt)) (in_len pkt),
                                     K_SEM_GIVE device_sem]
            \<and> out_buf pkt' = written @ drop (length written) (out_buf pkt)
            \<and> out_len pkt' = in_len pkt - 16
            \<and> 0 \<le> in_len pkt \<and> in_len pkt + 16 \<le> int (length (in_buf pkt)))))"
proof (intro conjI impI)
  assume a: "crypto_stm32_cbc_encrypt p st ctx pkt iv = Returns (0, st', pkt')"
  from a obtain vec where v: "copy_reverse_words (CONFIG_ASSERT p) (replicate 16 0) 16 iv BLOCK_LEN_BYTES = Returns vec"
    by (auto simp: crypto_stm32_cbc_encrypt_def split: outcome.splits)
  from cbc_vec_Returns [OF v] have iv: "16 \<le> length iv" and vec: "vec = reverse_words (take 16 iv)" by simp_all
  from a v obtain i where i: "CRYPTO_STM32_SESSN st ctx = Some i"
    by (auto simp: crypto_stm32_cbc_encrypt_def split: option.splits)
  from a v i obtain out1 where o1: "memcpy (out_buf pkt) iv 16 = Some out1"
    by (auto simp: crypto_stm32_cbc_encrypt_def split: option.splits)
  from a v i o1 obtain out' where
    d: "do_encrypt p (set_pInitVect i vec st) ctx (in_buf pkt) (in_len pkt) (drop 16 out1) = Returns (0, st', out')"
    and pk: "pkt' = pkt\<lparr>out_buf := take 16 out1 @ out', out_len := in_len pkt + 16\<rparr>"
    by (auto simp: crypto_stm32_cbc_encrypt_def split: outcome.splits if_splits)
  from o1 iv have out1: "out1 = take 16 iv @ drop 16 (out_buf pkt)" and ol: "16 \<le> length (out_buf pkt)"
    by (auto simp: memcpy_def split: if_splits)
  from i have ii: "drv_sessn_state ctx = Some i" "i < CRYPTO_MAX_SESSION st"
    by (simp_all add: CRYPTO_STM32_SESSN_Some)
  from do_encrypt_success [OF d] i iv ol ii show
    "\<exists>i. drv_sessn_state ctx = Some i \<and> i < CRYPTO_MAX_SESSION st \<and>
        (let cfg = (config (crypto_stm32_sessions st ! i))\<lparr>pInitVect := Some (reverse_words (take 16 iv))\<rparr>;
             h1 = snd (HAL_CRYP_SetConfig p (hcryp st) cfg);
             written = snd (snd (HAL_CRYP_Encrypt p h1 (in_buf pkt) (in_len pkt)))
         in take 16 (out_buf pkt') = take 16 iv
            \<and> drop 16 (out_buf pkt') = written @ drop (16 + length written) (out_buf pkt)
            \<and> out_len pkt' = in_len pkt + 16
            \<and> 0 \<le> in_len pkt \<and> in_len pkt \<le> int (length (in_buf pkt)))"
    by (simp add: Let_def set_pInitVect_config pk out1 vec add.commute)
next
  assume a: "crypto_stm32_cbc_decrypt p st ctx pkt iv = Returns (0, st', pkt')"
  from a obtain vec where v: "copy_reverse_words (CONFIG_ASSERT p) (replicate 16 0) 16 iv BLOCK_LEN_BYTES = Returns vec"
    by (auto simp: crypto_stm32_cbc_decrypt_def split: outcome.splits)
  from cbc_vec_Returns [OF v] have iv: "16 \<le> length iv" and vec: "vec = reverse_words (take 16 iv)" by simp_all
  from a v obtain i where i: "CRYPTO_STM32_SESSN st ctx = Some i"
    by (auto simp: crypto_stm32_cbc_decrypt_def split: option.splits)
  from a v i obtain out' where
    d: "do_decrypt p (set_pInitVect i vec st) ctx (drop 16 (in_buf pkt)) (in_len pkt) (out_buf pkt) = Returns (0, st', out')"
    and pk: "pkt' = pkt\<lparr>out_buf := out', out_len := in_len pkt - 16\<rparr>"
    by (auto simp: crypto_stm32_cbc_decrypt_def split: outcome.splits if_splits)
  from i have ii: "drv_sessn_state ctx = Some i" "i < CRYPTO_MAX_SESSION st"
    by (simp_all add: CRYPTO_STM32_SESSN_Some)
  from a v i have il: "16 \<le> length (in_buf pkt)"
    by (auto simp: crypto_stm32_cbc_decrypt_def split: if_splits)
  from do_decrypt_success [OF d] i ii il show
    "\<exists>i. drv_sessn_state ctx = Some i \<and> i < CRYPTO_MAX_SESSION st \<and>
        (let cfg = (config (crypto_stm32_sessions st ! i))\<lparr>pInitVect := Some (reverse_words (take 16 iv))\<rparr>;
             h1 = snd (HAL_CRYP_SetConfig p (hcryp st) cfg);
             written = snd (snd (HAL_CRYP_Decrypt p h1 (drop 16 (in_buf pkt)) (in_len pkt)))
         in trace st' = trace st @ [K_SEM_TAKE device_sem, CALL_HAL_CRYP_SetConfig cfg,
                                     CALL_HAL_CRYP_Decrypt (drop 16 (in_buf pkt)) (in_len pkt),
                                     K_SEM_GIVE device_sem]
            \<and> out_buf pkt' = written @ drop (length written) (out_buf pkt)
            \<and> out_len pkt' = in_len pkt - 16
            \<and> 0 \<le> in_len pkt \<and> in_len pkt + 16 \<le> int (length (in_buf pkt)))"
    by (simp add: Let_def set_pInitVect_config pk vec)
qed

theorem cbc_iv_prefix_witness:
  "(\<exists>st' pkt'. crypto_stm32_cbc_encrypt loopback_platform
        (driver_of HAL_CRYP_STATE_READY [bound_slot, free_slot]) (bound_ctx 0)
        (pkt_of [1, 2, 3, 4] 32) [16, 17, 18, 19, 20, 21, 22, 23, 24, 25, 26, 27, 28, 29, 30, 31]
        = Returns (0, st', pkt')
      \<and> take 16 (out_buf pkt') = [16, 17, 18, 19, 20, 21, 22, 23, 24, 25, 26, 27, 28, 29, 30, 31]
      \<and> drop 16 (out_buf pkt') = [1, 2, 3, 4] @ replicate 12 0
      \<and> out_len pkt' = 20)
   \<and> (\<exists>st' pkt'. crypto_stm32_cbc_decrypt loopback_platform
        (driver_of HAL_CRYP_STATE_READY [bound_slot, free_slot]) (bound_ctx 0)
        ((pkt_of ([16, 17, 18, 19, 20, 21, 22, 23, 24, 25, 26, 27, 28, 29, 30, 31]
                   @ [1, 2, 3, 4] @ replicate 16 9) 32)\<lparr>in_len := 20\<rparr>)
        [16, 17, 18, 19, 20, 21, 22, 23, 24, 25, 26, 27, 28, 29, 30, 31]
        = Returns (0, st', pkt')
      \<and> trace st' = [K_SEM_TAKE device_sem,
            CALL_HAL_CRYP_SetConfig (zero_config\<lparr>pInitVect :=
               Some [19, 18, 17, 16, 23, 22, 21, 20, 27, 26, 25, 24, 31, 30, 29, 28]\<rparr>),
            CALL_HAL_CRYP_Decrypt ([1, 2, 3, 4] @ replicate 16 9) 20,
            K_SEM_GIVE device_sem]
      \<and> out_buf pkt' = [1, 2, 3, 4] @ replicate 16 9 @ replicate 12 0
      \<and> out_len pkt' = 4)"
proof -
  let ?S = "driver_of HAL_CRYP_STATE_READY [bound_slot, free_slot]"
  let ?iv = "[16, 17, 18, 19, 20, 21, 22, 23, 24, 25, 26, 27, 28, 29, 30, 31] :: u8 list"
  let ?P = "pkt_of [1, 2, 3, 4] 32"
  let ?C = "(pkt_of (?iv @ [1, 2, 3, 4] @ replicate 16 9) 32)\<lparr>in_len := 20\<rparr>"
  have "\<exists>st' pkt'. crypto_stm32_cbc_encrypt loopback_platform ?S (bound_ctx 0) ?P ?iv = Returns (0, st', pkt')"
    by (simp add: crypto_stm32_cbc_encrypt_def cbc_vec CRYPTO_STM32_SESSN_def memcpy_def
          do_encrypt_def hal_output_def EIO_def INT_MAX_def Let_def)
  then obtain s1 k1 where
    e: "crypto_stm32_cbc_encrypt loopback_platform ?S (bound_ctx 0) ?P ?iv = Returns (0, s1, k1)" by blast
  have "\<exists>st' pkt'. crypto_stm32_cbc_decrypt loopback_platform ?S (bound_ctx 0) ?C ?iv = Returns (0, st', pkt')"
    by (simp add: crypto_stm32_cbc_decrypt_def cbc_vec CRYPTO_STM32_SESSN_def pkt_of_def
          do_decrypt_def hal_output_def EIO_def INT_MIN_def Let_def)
  then obtain s2 k2 where
    d: "crypto_stm32_cbc_decrypt loopback_platform ?S (bound_ctx 0) ?C ?iv = Returns (0, s2, k2)" by blast
  from cbc_iv_prefix [of loopback_platform ?S "bound_ctx 0" ?P ?iv s1 k1] e
  have r1: "take 16 (out_buf k1) = ?iv" "drop 16 (out_buf k1) = [1, 2, 3, 4] @ replicate 12 0" "out_len k1 = 20"
    by (simp_all add: Let_def)
  from cbc_iv_prefix [of loopback_platform ?S "bound_ctx 0" ?C ?iv s2 k2] d
  have r2: "trace s2 = [K_SEM_TAKE device_sem,
            CALL_HAL_CRYP_SetConfig (zero_config\<lparr>pInitVect :=
               Some [19, 18, 17, 16, 23, 22, 21, 20, 27, 26, 25, 24, 31, 30, 29, 28]\<rparr>),
            CALL_HAL_CRYP_Decrypt ([1, 2, 3, 4] @ replicate 16 9) 20,
            K_SEM_GIVE device_sem]"
      "out_buf k2 = [1, 2, 3, 4] @ replicate 16 9 @ replicate 12 0" "out_len k2 = 4"
    by (simp_all add: Let_def pkt_of_def bound_slot_def)
  from e r1 d r2 show ?thesis by blast
qed

text \<open>
  A CBC decryption whose \<open>in_len\<close> is the size of its input buffer, prefix included, has
  the accelerator read 16 bytes past the buffer: no such call returns 0.
\<close>

lemma cbc_decrypt_overread:
  assumes "int (length (in_buf pkt)) < in_len pkt + 16"
  shows "crypto_stm32_cbc_decrypt p st ctx pkt iv \<noteq> Returns (0, st', pkt')"
proof
  assume a: "crypto_stm32_cbc_decrypt p st ctx pkt iv = Returns (0, st', pkt')"
  from a obtain vec where v: "copy_reverse_words (CONFIG_ASSERT p) (replicate 16 0) 16 iv BLOCK_LEN_BYTES = Returns vec"
    by (auto simp: crypto_stm32_cbc_decrypt_def split: outcome.splits)
  from a v obtain i where i: "CRYPTO_STM32_SESSN st ctx = Some i"
    by (auto simp: crypto_stm32_cbc_decrypt_def split: option.splits)
  from a v i have il: "16 \<le> length (in_buf pkt)"
    by (auto simp: crypto_stm32_cbc_decrypt_def split: if_splits)
  from a v i obtain out' where
    d: "do_decrypt p (set_pInitVect i vec st) ctx (drop 16 (in_buf pkt)) (in_len pkt) (out_buf pkt) = Returns (0, st', out')"
    by (auto simp: crypto_stm32_cbc_decrypt_def split: outcome.splits if_splits)
  from do_decrypt_success [OF d] il have "in_len pkt + 16 \<le> int (length (in_buf pkt))"
    by (auto simp: Let_def)
  with assms show False by simp
qed

lemma cbc_decrypt_overread_example:
  "crypto_stm32_cbc_decrypt loopback_platform (driver_of HAL_CRYP_STATE_READY [bound_slot, free_slot])
     (bound_ctx 0)
     (pkt_of ([16, 17, 18, 19, 20, 21, 22, 23, 24, 25, 26, 27, 28, 29, 30, 31] @ [1, 2, 3, 4]) 32)
     [16, 17, 18, 19, 20, 21, 22, 23, 24, 25, 26, 27, 28, 29, 30, 31] = Undefined"
  by (simp add: crypto_stm32_cbc_decrypt_def cbc_vec CRYPTO_STM32_SESSN_def
        do_decrypt_def Let_def)

subsection \<open>CTR\<close>

lemma ctr_ivlen_eq: "ctr_ivlen ctx = uint (keylen ctx) - uint (ctr_len ctx) div 8"
proof -
  define a :: u32 where "a = ucast (keylen ctx)"
  define b :: u32 where "b = drop_bit 3 (ctr_len ctx)"
  have ua: "uint a = uint (keylen ctx)"
    by (simp add: a_def uint_up_ucast is_up)
  have ub: "uint b = uint (ctr_len ctx) div 8"
    by (simp add: b_def drop_bit_eq_div uint_div_distrib)
  have ra: "0 \<le> uint a" "uint a < 65536"
    using uint_bounded [of "keylen ctx"] by (simp_all add: ua)
  have "uint (ctr_len ctx) < 4294967296"
    using uint_bounded [of "ctr_len ctx"] by simp
  then have "uint (ctr_len ctx) div 8 < 536870912" by arith
  then have rb1: "uint b < 536870912"
    by (simp add: ub)
  have rb0: "0 \<le> uint b" by simp
  note rb = rb0 rb1
  have "sint (a - b) = signed_take_bit 31 (uint (a - b))"
    by (simp add: sint_uint)
  also have "uint (a - b) = take_bit 32 (uint a - uint b)"
    by (simp add: uint_word_ariths take_bit_eq_mod)
  also have "signed_take_bit 31 (take_bit 32 (uint a - uint b)) = signed_take_bit 31 (uint a - uint b)"
    by (simp add: signed_take_bit_take_bit)
  also have "\<dots> = uint a - uint b"
  proof -
    have "- 2147483648 \<le> uint a - uint b"
      using uint_ge_0 [of a] rb1 by linarith
    then have l: "- (2 ^ 31) \<le> uint a - uint b" by simp
    have "uint a - uint b < 2147483648"
      using ra(2) uint_ge_0 [of b] by linarith
    then have u: "uint a - uint b < 2 ^ 31" by simp
    from l u show ?thesis by (rule signed_take_bit_int_eq_self)
  qed
  finally show ?thesis
    by (simp add: ctr_ivlen_def a_def [symmetric] b_def [symmetric] ua ub)
qed

lemma ctr_block:
  assumes "copy_reverse_words a (replicate 16 0) 16 iv len = Returns ctr"
  shows "\<exists>n. len = int n \<and> n \<le> 16 \<and> n \<le> length iv
             \<and> ctr = reverse_words (take n iv @ replicate (16 - n) 0)"
proof -
  from assms have r: "0 \<le> len" "len \<le> 16" "len \<le> int (length iv)"
    by (auto simp: copy_reverse_words_def memcpy_def split: if_splits option.splits)
  define n where "n = nat len"
  have n: "len = int n" "n \<le> 16" "n \<le> length iv" using r by (simp_all add: n_def)
  from copy_reverse_words_closed [of len 16 "replicate 16 0" iv a] r assms
  have "ctr = reverse_words (take n iv @ replicate (16 - n) 0)"
    by (simp add: n_def)
  with n show ?thesis by blast
qed

lemma ctr_transform_first:
  "(copy_reverse_words (CONFIG_ASSERT p) (replicate 16 0) 16 iv (ctr_ivlen ctx) = AssertFailed \<longrightarrow>
        crypto_stm32_ctr_encrypt p st ctx pkt iv = AssertFailed
        \<and> crypto_stm32_ctr_decrypt p st ctx pkt iv = AssertFailed)
   \<and> (copy_reverse_words (CONFIG_ASSERT p) (replicate 16 0) 16 iv (ctr_ivlen ctx) = Undefined \<longrightarrow>
        crypto_stm32_ctr_encrypt p st ctx pkt iv = Undefined
        \<and> crypto_stm32_ctr_decrypt p st ctx pkt iv = Undefined)"
  by (simp add: crypto_stm32_ctr_encrypt_def crypto_stm32_ctr_decrypt_def Let_def)

lemma ctr_encrypt_eq:
  assumes bound: "device ctx = Some dev" "drv_sessn_state ctx = Some i" "i < CRYPTO_MAX_SESSION st"
    and iv: "0 \<le> ctr_ivlen ctx" "ctr_ivlen ctx \<le> 16" "ctr_ivlen ctx \<le> int (length iv)"
    and inp: "0 \<le> in_len pkt" "in_len pkt \<le> int (length (in_buf pkt))"
    and ctr: "ctr = reverse_words (take (nat (ctr_ivlen ctx)) iv @ replicate (16 - nat (ctr_ivlen ctx)) 0)"
    and cfg: "cfg = (config (crypto_stm32_sessions st ! i))\<lparr>pInitVect := Some ctr\<rparr>"
    and ss: "ss = (crypto_stm32_sessions st)[i := (crypto_stm32_sessions st ! i)\<lparr>config := cfg\<rparr>]"
    and set: "HAL_CRYP_SetConfig p (hcryp st) cfg = (s1, h1)"
    and run: "HAL_CRYP_Encrypt p h1 (in_buf pkt) (in_len pkt) = (s2, h2, w)"
  shows "crypto_stm32_ctr_encrypt p st ctx pkt iv =
     (if s1 \<noteq> HAL_OK
      then Returns (- EIO, st\<lparr>hcryp := h1, crypto_stm32_sessions := ss,
                 trace := trace st @ [K_SEM_TAKE device_sem, CALL_HAL_CRYP_SetConfig cfg,
                                      K_SEM_GIVE device_sem]\<rparr>, pkt)
      else if length (out_buf pkt) < length w then Undefined
      else if s2 \<noteq> HAL_OK
      then Returns (- EIO, st\<lparr>hcryp := h2, crypto_stm32_sessions := ss,
                 trace := trace st @ [K_SEM_TAKE device_sem, CALL_HAL_CRYP_SetConfig cfg,
                                      CALL_HAL_CRYP_Encrypt (in_buf pkt) (in_len pkt),
                                      K_SEM_GIVE device_sem]\<rparr>,
                    pkt\<lparr>out_buf := w @ drop (length w) (out_buf pkt)\<rparr>)
      else Returns (0, st\<lparr>hcryp := h2, crypto_stm32_sessions := ss,
                 trace := trace st @ [K_SEM_TAKE device_sem, CALL_HAL_CRYP_SetConfig cfg,
                                      CALL_HAL_CRYP_Encrypt (in_buf pkt) (in_len pkt),
                                      K_SEM_GIVE device_sem]\<rparr>,
                    pkt\<lparr>out_buf := w @ drop (length w) (out_buf pkt), out_len := in_len pkt\<rparr>))"
proof -
  have t: "copy_reverse_words (CONFIG_ASSERT p) (replicate 16 0) 16 iv (ctr_ivlen ctx) = Returns ctr"
    using copy_reverse_words_closed [of "ctr_ivlen ctx" 16 "replicate 16 0" iv "CONFIG_ASSERT p"] iv
    by (simp add: ctr)
  define st1 where "st1 = set_pInitVect i ctr st"
  have s: "CRYPTO_STM32_SESSN st ctx = Some i"
    using bound by (simp add: CRYPTO_STM32_SESSN_Some)
  have c1: "config (crypto_stm32_sessions st1 ! i) = cfg"
    using bound(3) by (simp add: st1_def set_pInitVect_config cfg)
  have b1: "i < CRYPTO_MAX_SESSION st1" "hcryp st1 = hcryp st" "trace st1 = trace st"
    "crypto_stm32_sessions st1 = ss"
    using bound(3) by (simp_all add: st1_def set_pInitVect_def ss cfg)
  note d = do_encrypt_eq [of ctx dev i st1 "in_len pkt" "in_buf pkt" p s1 h1 s2 h2 w "out_buf pkt",
      OF bound(1,2) b1(1) inp, unfolded c1 b1(2), OF set run]
  have e: "st1\<lparr>hcryp := h, trace := tr\<rparr> = st\<lparr>hcryp := h, crypto_stm32_sessions := ss, trace := tr\<rparr>" for h tr
    by (simp add: st1_def set_pInitVect_def update_session_def ss cfg)
  show ?thesis
    by (simp add: crypto_stm32_ctr_encrypt_def Let_def t s st1_def [symmetric] d b1(3) e EIO_def)
qed

lemma ctr_decrypt_eq:
  assumes bound: "device ctx = Some dev" "drv_sessn_state ctx = Some i" "i < CRYPTO_MAX_SESSION st"
    and iv: "0 \<le> ctr_ivlen ctx" "ctr_ivlen ctx \<le> 16" "ctr_ivlen ctx \<le> int (length iv)"
    and inp: "0 \<le> in_len pkt" "in_len pkt \<le> int (length (in_buf pkt))"
    and ctr: "ctr = reverse_words (take (nat (ctr_ivlen ctx)) iv @ replicate (16 - nat (ctr_ivlen ctx)) 0)"
    and cfg: "cfg = (config (crypto_stm32_sessions st ! i))\<lparr>pInitVect := Some ctr\<rparr>"
    and ss: "ss = (crypto_stm32_sessions st)[i := (crypto_stm32_sessions st ! i)\<lparr>config := cfg\<rparr>]"
    and set: "HAL_CRYP_SetConfig p (hcryp st) cfg = (s1, h1)"
    and run: "HAL_CRYP_Decrypt p h1 (in_buf pkt) (in_len pkt) = (s2, h2, w)"
  shows "crypto_stm32_ctr_decrypt p st ctx pkt iv =
     (if s1 \<noteq> HAL_OK
      then Returns (- EIO, st\<lparr>hcryp := h1, crypto_stm32_sessions := ss,
                 trace := trace st @ [K_SEM_TAKE device_sem, CALL_HAL_CRYP_SetConfig cfg,
                                      K_SEM_GIVE device_sem]\<rparr>, pkt)
      else if length (out_buf pkt) < length w then Undefined
      else if s2 \<noteq> HAL_OK
      then Returns (- EIO, st\<lparr>hcryp := h2, crypto_stm32_sessions := ss,
                 trace := trace st @ [K_SEM_TAKE device_sem, CALL_HAL_CRYP_SetConfig cfg,
                                      CALL_HAL_CRYP_Decrypt (in_buf pkt) (in_len pkt),
                                      K_SEM_GIVE device_sem]\<rparr>,
                    pkt\<lparr>out_buf := w @ drop (length w) (out_buf pkt)\<rparr>)
      else Returns (0, st\<lparr>hcryp := h2, crypto_stm32_sessions := ss,
                 trace := trace st @ [K_SEM_TAKE device_sem, CALL_HAL_CRYP_SetConfig cfg,
                                      CALL_HAL_CRYP_Decrypt (in_buf pkt) (in_len pkt),
                                      K_SEM_GIVE device_sem]\<rparr>,
                    pkt\<lparr>out_buf := w @ drop (length w) (out_buf pkt), out_len := in_len pkt\<rparr>))"
proof -
  have t: "copy_reverse_words (CONFIG_ASSERT p) (replicate 16 0) 16 iv (ctr_ivlen ctx) = Returns ctr"
    using copy_reverse_words_closed [of "ctr_ivlen ctx" 16 "replicate 16 0" iv "CONFIG_ASSERT p"] iv
    by (simp add: ctr)
  define st1 where "st1 = set_pInitVect i ctr st"
  have s: "CRYPTO_STM32_SESSN st ctx = Some i"
    using bound by (simp add: CRYPTO_STM32_SESSN_Some)
  have c1: "config (crypto_stm32_sessions st1 ! i) = cfg"
    using bound(3) by (simp add: st1_def set_pInitVect_config cfg)
  have b1: "i < CRYPTO_MAX_SESSION st1" "hcryp st1 = hcryp st" "trace st1 = trace st"
    "crypto_stm32_sessions st1 = ss"
    using bound(3) by (simp_all add: st1_def set_pInitVect_def ss cfg)
  note d = do_decrypt_eq [of ctx dev i st1 "in_len pkt" "in_buf pkt" p s1 h1 s2 h2 w "out_buf pkt",
      OF bound(1,2) b1(1) inp, unfolded c1 b1(2), OF set run]
  have e: "st1\<lparr>hcryp := h, trace := tr\<rparr> = st\<lparr>hcryp := h, crypto_stm32_sessions := ss, trace := tr\<rparr>" for h tr
    by (simp add: st1_def set_pInitVect_def update_session_def ss cfg)
  show ?thesis
    by (simp add: crypto_stm32_ctr_decrypt_def Let_def t s st1_def [symmetric] d b1(3) e EIO_def)
qed

text \<open>
  C2. The length \<open>ivlen\<close> of a CTR operation is the key length minus the counter
  bit-length divided by 8. A CTR encryption or decryption that returns started from a
  zero block of 16 bytes and applied the byte-order transform to it with \<open>ivlen\<close> bytes
  of the caller's IV: the block the session's configuration carries into the HAL is the
  word-wise reversal of those \<open>ivlen\<close> bytes followed by zeros. When the call returns 0
  the reported output length is the input length. The transform comes first in every
  call: where it stops at its assertion or leaves defined behaviour, so does the call.
  Where it does not, that is for a bound context, \<open>0 \<le> ivlen \<le> 16\<close>, an IV of \<open>ivlen\<close>
  bytes and an input buffer of \<open>in_len\<close> bytes, the result of the call is given in full,
  for encryption and for decryption alike: the block is installed in the configuration
  of the session, \<open>HAL_CRYP_SetConfig\<close> gets that configuration under the device lock, and
  the call returns \<open>-EIO\<close> when a HAL call fails and 0, with the output length set to the
  input length, when none does (it writes outside the output buffer when the HAL produces
  more than that buffer holds).
\<close>

theorem ctr_counter_block:
  "ctr_ivlen ctx = uint (keylen ctx) - uint (ctr_len ctx) div 8
   \<and> (crypto_stm32_ctr_encrypt p st ctx pkt iv = Returns (ret, st', pkt')
        \<or> crypto_stm32_ctr_decrypt p st ctx pkt iv = Returns (ret, st', pkt') \<longrightarrow>
      (\<exists>i n. drv_sessn_state ctx = Some i \<and> i < CRYPTO_MAX_SESSION st
         \<and> ctr_ivlen ctx = int n \<and> n \<le> 16 \<and> n \<le> length iv
         \<and> (let ctr = reverse_words (take n iv @ replicate (16 - n) 0);
                 cfg = (config (crypto_stm32_sessions st ! i))\<lparr>pInitVect := Some ctr\<rparr>
             in copy_reverse_words (CONFIG_ASSERT p) (replicate 16 0) 16 iv (ctr_ivlen ctx) = Returns ctr
                \<and> config (crypto_stm32_sessions st' ! i) = cfg
                \<and> (\<exists>rest. trace st' = trace st @ K_SEM_TAKE device_sem # CALL_HAL_CRYP_SetConfig cfg # rest)
                \<and> (ret = 0 \<longrightarrow> out_len pkt' = in_len pkt))))
   \<and> (copy_reverse_words (CONFIG_ASSERT p) (replicate 16 0) 16 iv (ctr_ivlen ctx) = AssertFailed \<longrightarrow>
        crypto_stm32_ctr_encrypt p st ctx pkt iv = AssertFailed
        \<and> crypto_stm32_ctr_decrypt p st ctx pkt iv = AssertFailed)
   \<and> (copy_reverse_words (CONFIG_ASSERT p) (replicate 16 0) 16 iv (ctr_ivlen ctx) = Undefined \<longrightarrow>
        crypto_stm32_ctr_encrypt p st ctx pkt iv = Undefined
        \<and> crypto_stm32_ctr_decrypt p st ctx pkt iv = Undefined)
   \<and> (device ctx = Some dev \<and> drv_sessn_state ctx = Some k \<and> k < CRYPTO_MAX_SESSION st
        \<and> 0 \<le> ctr_ivlen ctx \<and> ctr_ivlen ctx \<le> 16 \<and> ctr_ivlen ctx \<le> int (length iv)
        \<and> 0 \<le> in_len pkt \<and> in_len pkt \<le> int (length (in_buf pkt)) \<longrightarrow>
        (let ctr = reverse_words (take (nat (ctr_ivlen ctx)) iv @ replicate (16 - nat (ctr_ivlen ctx)) 0);
             cfg = (config (crypto_stm32_sessions st ! k))\<lparr>pInitVect := Some ctr\<rparr>;
             ss = (crypto_stm32_sessions st)[k := (crypto_stm32_sessions st ! k)\<lparr>config := cfg\<rparr>];
             before = trace st @ [K_SEM_TAKE device_sem, CALL_HAL_CRYP_SetConfig cfg];
             (s1, h1) = HAL_CRYP_SetConfig p (hcryp st) cfg;
             (se, he, we) = HAL_CRYP_Encrypt p h1 (in_buf pkt) (in_len pkt);
             (sd, hd, wd) = HAL_CRYP_Decrypt p h1 (in_buf pkt) (in_len pkt)
         in copy_reverse_words (CONFIG_ASSERT p) (replicate 16 0) 16 iv (ctr_ivlen ctx) = Returns ctr
            \<and> crypto_stm32_ctr_encrypt p st ctx pkt iv =
               (if s1 \<noteq> HAL_OK
                then Returns (- EIO, st\<lparr>hcryp := h1, crypto_stm32_sessions := ss,
                         trace := before @ [K_SEM_GIVE device_sem]\<rparr>, pkt)
                else if length (out_buf pkt) < length we then Undefined
                else if se \<noteq> HAL_OK
                then Returns (- EIO, st\<lparr>hcryp := he, crypto_stm32_sessions := ss,
                         trace := before @ [CALL_HAL_CRYP_Encrypt (in_buf pkt) (in_len pkt),
                                            K_SEM_GIVE device_sem]\<rparr>,
                       pkt\<lparr>out_buf := we @ drop (length we) (out_buf pkt)\<rparr>)
                else Returns (0, st\<lparr>hcryp := he, crypto_stm32_sessions := ss,
                         trace := before @ [CALL_HAL_CRYP_Encrypt (in_buf pkt) (in_len pkt),
                                            K_SEM_GIVE device_sem]\<rparr>,
                       pkt\<lparr>out_buf := we @ drop (length we) (out_buf pkt), out_len := in_len pkt\<rparr>))
            \<and> crypto_stm32_ctr_decrypt p st ctx pkt iv =
               (if s1 \<noteq> HAL_OK
                then Returns (- EIO, st\<lparr>hcryp := h1, crypto_stm32_sessions := ss,
                         trace := before @ [K_SEM_GIVE device_sem]\<rparr>, pkt)
                else if length (out_buf pkt) < length wd then Undefined
                else if sd \<noteq> HAL_OK
                then Returns (- EIO, st\<lparr>hcryp := hd, crypto_stm32_sessions := ss,
                         trace := before @ [CALL_HAL_CRYP_Decrypt (in_buf pkt) (in_len pkt),
                                            K_SEM_GIVE device_sem]\<rparr>,
                       pkt\<lparr>out_buf := wd @ drop (length wd) (out_buf pkt)\<rparr>)
                else Returns (0, st\<lparr>hcryp := hd, crypto_stm32_sessions := ss,
                         trace := before @ [CALL_HAL_CRYP_Decrypt (in_buf pkt) (in_len pkt),
                                            K_SEM_GIVE device_sem]\<rparr>,
                       pkt\<lparr>out_buf := wd @ drop (length wd) (out_buf pkt), out_len := in_len pkt\<rparr>))))"
proof -
  have len: "ctr_ivlen ctx = uint (keylen ctx) - uint (ctr_len ctx) div 8"
    by (rule ctr_ivlen_eq)
  have ret: "\<exists>i n. drv_sessn_state ctx = Some i \<and> i < CRYPTO_MAX_SESSION st
         \<and> ctr_ivlen ctx = int n \<and> n \<le> 16 \<and> n \<le> length iv
         \<and> (let ctr = reverse_words (take n iv @ replicate (16 - n) 0);
                 cfg = (config (crypto_stm32_sessions st ! i))\<lparr>pInitVect := Some ctr\<rparr>
             in copy_reverse_words (CONFIG_ASSERT p) (replicate 16 0) 16 iv (ctr_ivlen ctx) = Returns ctr
                \<and> config (crypto_stm32_sessions st' ! i) = cfg
                \<and> (\<exists>rest. trace st' = trace st @ K_SEM_TAKE device_sem # CALL_HAL_CRYP_SetConfig cfg # rest)
                \<and> (ret = 0 \<longrightarrow> out_len pkt' = in_len pkt))"
    if a: "crypto_stm32_ctr_encrypt p st ctx pkt iv = Returns (ret, st', pkt')
        \<or> crypto_stm32_ctr_decrypt p st ctx pkt iv = Returns (ret, st', pkt')"
  proof -
  from a obtain ctr where c: "copy_reverse_words (CONFIG_ASSERT p) (replicate 16 0) 16 iv (ctr_ivlen ctx) = Returns ctr"
    by (auto simp: crypto_stm32_ctr_encrypt_def crypto_stm32_ctr_decrypt_def Let_def split: outcome.splits)
  from ctr_block [OF c] obtain n where n: "ctr_ivlen ctx = int n" "n \<le> 16" "n \<le> length iv"
    and ctr: "ctr = reverse_words (take n iv @ replicate (16 - n) 0)" by blast
  from a c obtain i where i: "CRYPTO_STM32_SESSN st ctx = Some i"
    by (auto simp: crypto_stm32_ctr_encrypt_def crypto_stm32_ctr_decrypt_def Let_def split: option.splits)
  then have ii: "drv_sessn_state ctx = Some i" "i < CRYPTO_MAX_SESSION st"
    by (simp_all add: CRYPTO_STM32_SESSN_Some)
  define st1 where "st1 = set_pInitVect i ctr st"
  define cfg where "cfg = (config (crypto_stm32_sessions st ! i))\<lparr>pInitVect := Some ctr\<rparr>"
  have cfg1: "config (crypto_stm32_sessions st1 ! i) = cfg"
    using ii by (simp add: st1_def cfg_def set_pInitVect_config)
  have s1: "CRYPTO_STM32_SESSN st1 ctx = Some i" "trace st1 = trace st"
    using i by (simp_all add: st1_def)
  from a c i have "\<exists>out'. (do_encrypt p st1 ctx (in_buf pkt) (in_len pkt) (out_buf pkt) = Returns (ret, st', out')
             \<or> do_decrypt p st1 ctx (in_buf pkt) (in_len pkt) (out_buf pkt) = Returns (ret, st', out'))
          \<and> (ret = 0 \<longrightarrow> out_len pkt' = in_len pkt)"
    by (auto simp: crypto_stm32_ctr_encrypt_def crypto_stm32_ctr_decrypt_def Let_def st1_def
             split: outcome.splits if_splits)
  then obtain out' where
    d: "do_encrypt p st1 ctx (in_buf pkt) (in_len pkt) (out_buf pkt) = Returns (ret, st', out')
        \<or> do_decrypt p st1 ctx (in_buf pkt) (in_len pkt) (out_buf pkt) = Returns (ret, st', out')"
    and ol: "ret = 0 \<longrightarrow> out_len pkt' = in_len pkt" by blast
  from d do_encrypt_Returns [of p st1 ctx _ _ _ ret st' out'] do_decrypt_Returns [of p st1 ctx _ _ _ ret st' out'] s1
  have r: "crypto_stm32_sessions st' = crypto_stm32_sessions st1"
          "\<exists>rest. trace st' = trace st @ K_SEM_TAKE device_sem
                  # CALL_HAL_CRYP_SetConfig (config (crypto_stm32_sessions st1 ! i)) # rest"
    by auto
  show ?thesis
    apply (rule exI [of _ i], rule exI [of _ n])
    using ii n c ol r cfg1
    by (simp add: Let_def ctr [symmetric] cfg_def [symmetric])
  qed
  note first = ctr_transform_first [of p iv ctx st pkt]
  have total: "let ctr = reverse_words (take (nat (ctr_ivlen ctx)) iv @ replicate (16 - nat (ctr_ivlen ctx)) 0);
             cfg = (config (crypto_stm32_sessions st ! k))\<lparr>pInitVect := Some ctr\<rparr>;
             ss = (crypto_stm32_sessions st)[k := (crypto_stm32_sessions st ! k)\<lparr>config := cfg\<rparr>];
             before = trace st @ [K_SEM_TAKE device_sem, CALL_HAL_CRYP_SetConfig cfg];
             (s1, h1) = HAL_CRYP_SetConfig p (hcryp st) cfg;
             (se, he, we) = HAL_CRYP_Encrypt p h1 (in_buf pkt) (in_len pkt);
             (sd, hd, wd) = HAL_CRYP_Decrypt p h1 (in_buf pkt) (in_len pkt)
         in copy_reverse_words (CONFIG_ASSERT p) (replicate 16 0) 16 iv (ctr_ivlen ctx) = Returns ctr
            \<and> crypto_stm32_ctr_encrypt p st ctx pkt iv =
               (if s1 \<noteq> HAL_OK
                then Returns (- EIO, st\<lparr>hcryp := h1, crypto_stm32_sessions := ss,
                         trace := before @ [K_SEM_GIVE device_sem]\<rparr>, pkt)
                else if length (out_buf pkt) < length we then Undefined
                else if se \<noteq> HAL_OK
                then Returns (- EIO, st\<lparr>hcryp := he, crypto_stm32_sessions := ss,
                         trace := before @ [CALL_HAL_CRYP_Encrypt (in_buf pkt) (in_len pkt),
                                            K_SEM_GIVE device_sem]\<rparr>,
                       pkt\<lparr>out_buf := we @ drop (length we) (out_buf pkt)\<rparr>)
                else Returns (0, st\<lparr>hcryp := he, crypto_stm32_sessions := ss,
                         trace := before @ [CALL_HAL_CRYP_Encrypt (in_buf pkt) (in_len pkt),
                                            K_SEM_GIVE device_sem]\<rparr>,
                       pkt\<lparr>out_buf := we @ drop (length we) (out_buf pkt), out_len := in_len pkt\<rparr>))
            \<and> crypto_stm32_ctr_decrypt p st ctx pkt iv =
               (if s1 \<noteq> HAL_OK
                then Returns (- EIO, st\<lparr>hcryp := h1, crypto_stm32_sessions := ss,
                         trace := before @ [K_SEM_GIVE device_sem]\<rparr>, pkt)
                else if length (out_buf pkt) < length wd then Undefined
                else if sd \<noteq> HAL_OK
                then Returns (- EIO, st\<lparr>hcryp := hd, crypto_stm32_sessions := ss,
                         trace := before @ [CALL_HAL_CRYP_Decrypt (in_buf pkt) (in_len pkt),
                                            K_SEM_GIVE device_sem]\<rparr>,
                       pkt\<lparr>out_buf := wd @ drop (length wd) (out_buf pkt)\<rparr>)
                else Returns (0, st\<lparr>hcryp := hd, crypto_stm32_sessions := ss,
                         trace := before @ [CALL_HAL_CRYP_Decrypt (in_buf pkt) (in_len pkt),
                                            K_SEM_GIVE device_sem]\<rparr>,
                       pkt\<lparr>out_buf := wd @ drop (length wd) (out_buf pkt), out_len := in_len pkt\<rparr>))"
    if h: "device ctx = Some dev \<and> drv_sessn_state ctx = Some k \<and> k < CRYPTO_MAX_SESSION st
        \<and> 0 \<le> ctr_ivlen ctx \<and> ctr_ivlen ctx \<le> 16 \<and> ctr_ivlen ctx \<le> int (length iv)
        \<and> 0 \<le> in_len pkt \<and> in_len pkt \<le> int (length (in_buf pkt))"
  proof -
    from h have bound: "device ctx = Some dev" "drv_sessn_state ctx = Some k" "k < CRYPTO_MAX_SESSION st"
      and iv: "0 \<le> ctr_ivlen ctx" "ctr_ivlen ctx \<le> 16" "ctr_ivlen ctx \<le> int (length iv)"
      and inp: "0 \<le> in_len pkt" "in_len pkt \<le> int (length (in_buf pkt))"
      by simp_all
    define ctr where "ctr = reverse_words (take (nat (ctr_ivlen ctx)) iv @ replicate (16 - nat (ctr_ivlen ctx)) 0)"
    define cfg where "cfg = (config (crypto_stm32_sessions st ! k))\<lparr>pInitVect := Some ctr\<rparr>"
    define ss where "ss = (crypto_stm32_sessions st)[k := (crypto_stm32_sessions st ! k)\<lparr>config := cfg\<rparr>]"
    obtain s1 h1 where set: "HAL_CRYP_SetConfig p (hcryp st) cfg = (s1, h1)"
      by (cases "HAL_CRYP_SetConfig p (hcryp st) cfg") auto
    obtain se he we where e: "HAL_CRYP_Encrypt p h1 (in_buf pkt) (in_len pkt) = (se, he, we)"
      by (cases "HAL_CRYP_Encrypt p h1 (in_buf pkt) (in_len pkt)") auto
    obtain sd hd wd where d: "HAL_CRYP_Decrypt p h1 (in_buf pkt) (in_len pkt) = (sd, hd, wd)"
      by (cases "HAL_CRYP_Decrypt p h1 (in_buf pkt) (in_len pkt)") auto
    have t: "copy_reverse_words (CONFIG_ASSERT p) (replicate 16 0) 16 iv (ctr_ivlen ctx) = Returns ctr"
      using copy_reverse_words_closed [of "ctr_ivlen ctx" 16 "replicate 16 0" iv "CONFIG_ASSERT p"] iv
      by (simp add: ctr_def)
    note E = ctr_encrypt_eq [OF bound iv inp ctr_def cfg_def ss_def set e]
    note D = ctr_decrypt_eq [OF bound iv inp ctr_def cfg_def ss_def set d]
    show ?thesis
      unfolding Let_def ctr_def [symmetric]
      unfolding cfg_def [symmetric]
      unfolding ss_def [symmetric]
      by (simp only: set e d prod.case t E D append_assoc append.simps)
  qed
  from len impI [OF ret] first [THEN conjunct1] first [THEN conjunct2] impI [OF total] show ?thesis
    by (intro conjI)
qed

theorem ctr_counter_block_witness:
  "device (bound_ctx 0) = Some 0 \<and> drv_sessn_state (bound_ctx 0) = Some 0
   \<and> 0 < CRYPTO_MAX_SESSION (driver_of HAL_CRYP_STATE_READY [bound_slot, free_slot])
   \<and> 0 \<le> ctr_ivlen (bound_ctx 0) \<and> ctr_ivlen (bound_ctx 0) \<le> 16
   \<and> ctr_ivlen (bound_ctx 0) \<le> int (length [16, 17, 18, 19, 20, 21, 22, 23, 24, 25, 26, 27, 28, 29, 30, 31 :: u8])
   \<and> 0 \<le> in_len (pkt_of [1, 2, 3, 4] 32)
   \<and> in_len (pkt_of [1, 2, 3, 4] 32) \<le> int (length (in_buf (pkt_of [1, 2, 3, 4] 32)))
   \<and> ctr_ivlen (bound_ctx 0) = 12
   \<and> (\<exists>st' pkt'. crypto_stm32_ctr_encrypt loopback_platform
          (driver_of HAL_CRYP_STATE_READY [bound_slot, free_slot]) (bound_ctx 0)
          (pkt_of [1, 2, 3, 4] 32) [16, 17, 18, 19, 20, 21, 22, 23, 24, 25, 26, 27, 28, 29, 30, 31]
          = Returns (0, st', pkt')
        \<and> pInitVect (config (crypto_stm32_sessions st' ! 0))
            = Some [19, 18, 17, 16, 23, 22, 21, 20, 27, 26, 25, 24, 0, 0, 0, 0]
        \<and> trace st' = [K_SEM_TAKE device_sem,
              CALL_HAL_CRYP_SetConfig (zero_config\<lparr>pInitVect :=
                 Some [19, 18, 17, 16, 23, 22, 21, 20, 27, 26, 25, 24, 0, 0, 0, 0]\<rparr>),
              CALL_HAL_CRYP_Encrypt [1, 2, 3, 4] 4, K_SEM_GIVE device_sem]
        \<and> out_buf pkt' = [1, 2, 3, 4] @ replicate 28 0
        \<and> out_len pkt' = 4)
   \<and> (\<exists>st' pkt'. crypto_stm32_ctr_decrypt loopback_platform
          (driver_of HAL_CRYP_STATE_READY [bound_slot, free_slot]) (bound_ctx 0)
          (pkt_of [1, 2, 3, 4] 32) [16, 17, 18, 19, 20, 21, 22, 23, 24, 25, 26, 27, 28, 29, 30, 31]
          = Returns (0, st', pkt')
        \<and> pInitVect (config (crypto_stm32_sessions st' ! 0))
            = Some [19, 18, 17, 16, 23, 22, 21, 20, 27, 26, 25, 24, 0, 0, 0, 0]
        \<and> trace st' = [K_SEM_TAKE device_sem,
              CALL_HAL_CRYP_SetConfig (zero_config\<lparr>pInitVect :=
                 Some [19, 18, 17, 16, 23, 22, 21, 20, 27, 26, 25, 24, 0, 0, 0, 0]\<rparr>),
              CALL_HAL_CRYP_Decrypt [1, 2, 3, 4] 4, K_SEM_GIVE device_sem]
        \<and> out_buf pkt' = [1, 2, 3, 4] @ replicate 28 0
        \<and> out_len pkt' = 4)"
proof -
  let ?S = "driver_of HAL_CRYP_STATE_READY [bound_slot, free_slot]"
  let ?iv = "[16, 17, 18, 19, 20, 21, 22, 23, 24, 25, 26, 27, 28, 29, 30, 31] :: u8 list"
  let ?P = "pkt_of [1, 2, 3, 4] 32"
  have l: "ctr_ivlen (bound_ctx 0) = 12" by (simp add: ctr_ivlen_eq)
  have h: "device (bound_ctx 0) = Some 0 \<and> drv_sessn_state (bound_ctx 0) = Some 0
   \<and> 0 < CRYPTO_MAX_SESSION (driver_of HAL_CRYP_STATE_READY [bound_slot, free_slot])
   \<and> 0 \<le> ctr_ivlen (bound_ctx 0) \<and> ctr_ivlen (bound_ctx 0) \<le> 16
   \<and> ctr_ivlen (bound_ctx 0) \<le> int (length [16, 17, 18, 19, 20, 21, 22, 23, 24, 25, 26, 27, 28, 29, 30, 31 :: u8])
   \<and> 0 \<le> in_len (pkt_of [1, 2, 3, 4] 32)
   \<and> in_len (pkt_of [1, 2, 3, 4] 32) \<le> int (length (in_buf (pkt_of [1, 2, 3, 4] 32)))"
    by (simp add: l)
  note T = ctr_counter_block [where ctx = "bound_ctx 0" and p = loopback_platform and st = ?S
      and pkt = ?P and iv = ?iv and dev = 0 and k = 0,
      THEN conjunct2, THEN conjunct2, THEN conjunct2, THEN conjunct2, THEN mp, OF h]
  have b: "config (bound_slot) = zero_config" by (simp add: bound_slot_def)
  from T have e: "(\<exists>st' pkt'. crypto_stm32_ctr_encrypt loopback_platform
          (driver_of HAL_CRYP_STATE_READY [bound_slot, free_slot]) (bound_ctx 0)
          (pkt_of [1, 2, 3, 4] 32) [16, 17, 18, 19, 20, 21, 22, 23, 24, 25, 26, 27, 28, 29, 30, 31]
          = Returns (0, st', pkt')
        \<and> pInitVect (config (crypto_stm32_sessions st' ! 0))
            = Some [19, 18, 17, 16, 23, 22, 21, 20, 27, 26, 25, 24, 0, 0, 0, 0]
        \<and> trace st' = [K_SEM_TAKE device_sem,
              CALL_HAL_CRYP_SetConfig (zero_config\<lparr>pInitVect :=
                 Some [19, 18, 17, 16, 23, 22, 21, 20, 27, 26, 25, 24, 0, 0, 0, 0]\<rparr>),
              CALL_HAL_CRYP_Encrypt [1, 2, 3, 4] 4, K_SEM_GIVE device_sem]
        \<and> out_buf pkt' = [1, 2, 3, 4] @ replicate 28 0
        \<and> out_len pkt' = 4)"
    by (simp add: Let_def l b pkt_of_def eval_nat_numeral)
  from T have d: "(\<exists>st' pkt'. crypto_stm32_ctr_decrypt loopback_platform
          (driver_of HAL_CRYP_STATE_READY [bound_slot, free_slot]) (bound_ctx 0)
          (pkt_of [1, 2, 3, 4] 32) [16, 17, 18, 19, 20, 21, 22, 23, 24, 25, 26, 27, 28, 29, 30, 31]
          = Returns (0, st', pkt')
        \<and> pInitVect (config (crypto_stm32_sessions st' ! 0))
            = Some [19, 18, 17, 16, 23, 22, 21, 20, 27, 26, 25, 24, 0, 0, 0, 0]
        \<and> trace st' = [K_SEM_TAKE device_sem,
              CALL_HAL_CRYP_SetConfig (zero_config\<lparr>pInitVect :=
                 Some [19, 18, 17, 16, 23, 22, 21, 20, 27, 26, 25, 24, 0, 0, 0, 0]\<rparr>),
              CALL_HAL_CRYP_Decrypt [1, 2, 3, 4] 4, K_SEM_GIVE device_sem]
        \<and> out_buf pkt' = [1, 2, 3, 4] @ replicate 28 0
        \<and> out_len pkt' = 4)"
    by (simp add: Let_def l b pkt_of_def eval_nat_numeral)
  show ?thesis by (insert h l e d, elim conjE, intro conjI, assumption+)
qed

text \<open>
  C4. The transform's assertion \<open>dst_len >= src_len\<close> for the 16-byte counter block of a
  CTR operation holds exactly when \<open>ivlen \<le> 16\<close>. That holds for every 16-byte key;
  it fails for a 32-byte key with a 32-bit counter (\<open>ivlen = 28\<close>). When it fails, a build
  with assertions stops at the assertion, and a build without them copies \<open>ivlen\<close> bytes
  into the 16-byte block, which is outside C's defined behaviour.
\<close>

theorem ctr_ivlen_precondition:
  "(ctr_ivlen ctx \<le> 16 \<longrightarrow>
      copy_reverse_words True (replicate 16 0) 16 iv (ctr_ivlen ctx) \<noteq> AssertFailed
      \<and> crypto_stm32_ctr_encrypt p st ctx pkt iv \<noteq> AssertFailed
      \<and> crypto_stm32_ctr_decrypt p st ctx pkt iv \<noteq> AssertFailed)
   \<and> (16 < ctr_ivlen ctx \<longrightarrow>
      copy_reverse_words True (replicate 16 0) 16 iv (ctr_ivlen ctx) = AssertFailed
      \<and> memcpy (replicate 16 0) iv (ctr_ivlen ctx) = None
      \<and> copy_reverse_words False (replicate 16 0) 16 iv (ctr_ivlen ctx) = Undefined
      \<and> crypto_stm32_ctr_encrypt p st ctx pkt iv = (if CONFIG_ASSERT p then AssertFailed else Undefined)
      \<and> crypto_stm32_ctr_decrypt p st ctx pkt iv = (if CONFIG_ASSERT p then AssertFailed else Undefined))
   \<and> (keylen ctx = 16 \<longrightarrow> ctr_ivlen ctx \<le> 16)
   \<and> (keylen ctx = 32 \<and> ctr_len ctx = 32 \<longrightarrow> ctr_ivlen ctx = 28)"
proof (intro conjI impI)
  assume le: "ctr_ivlen ctx \<le> 16"
  then show "copy_reverse_words True (replicate 16 0) 16 iv (ctr_ivlen ctx) \<noteq> AssertFailed"
    by (simp add: copy_reverse_words_asserts)
  from le have t: "copy_reverse_words (CONFIG_ASSERT p) (replicate 16 0) 16 iv (ctr_ivlen ctx) \<noteq> AssertFailed"
    by (simp add: copy_reverse_words_asserts)
  show "crypto_stm32_ctr_encrypt p st ctx pkt iv \<noteq> AssertFailed"
    using t
    by (auto simp: crypto_stm32_ctr_encrypt_def Let_def do_encrypt_not_AssertFailed
             split: outcome.splits option.splits if_splits)
  show "crypto_stm32_ctr_decrypt p st ctx pkt iv \<noteq> AssertFailed"
    using t
    by (auto simp: crypto_stm32_ctr_decrypt_def Let_def do_decrypt_not_AssertFailed
             split: outcome.splits option.splits if_splits)
next
  assume gt: "16 < ctr_ivlen ctx"
  show "copy_reverse_words True (replicate 16 0) 16 iv (ctr_ivlen ctx) = AssertFailed"
    using gt by (simp add: copy_reverse_words_def)
  show m: "memcpy (replicate 16 0) iv (ctr_ivlen ctx) = None"
    using gt by (simp add: memcpy_def)
  show "copy_reverse_words False (replicate 16 0) 16 iv (ctr_ivlen ctx) = Undefined"
    using m by (simp add: copy_reverse_words_def)
  show "crypto_stm32_ctr_encrypt p st ctx pkt iv = (if CONFIG_ASSERT p then AssertFailed else Undefined)"
    using gt m by (simp add: crypto_stm32_ctr_encrypt_def copy_reverse_words_def Let_def)
  show "crypto_stm32_ctr_decrypt p st ctx pkt iv = (if CONFIG_ASSERT p then AssertFailed else Undefined)"
    using gt m by (simp add: crypto_stm32_ctr_decrypt_def copy_reverse_words_def Let_def)
next
  assume k: "keylen ctx = 16"
  have "0 \<le> uint (ctr_len ctx) div 8"
    using uint_ge_0 [of "ctr_len ctx"] by (rule pos_imp_zdiv_nonneg_iff [THEN iffD2, rotated]) simp
  with k show "ctr_ivlen ctx \<le> 16"
    by (simp add: ctr_ivlen_eq)
next
  assume "keylen ctx = 32 \<and> ctr_len ctx = 32"
  then show "ctr_ivlen ctx = 28"
    by (simp add: ctr_ivlen_eq)
qed

theorem ctr_ivlen_precondition_witness:
  "ctr_ivlen (bound_ctx 0) \<le> 16
   \<and> crypto_stm32_ctr_encrypt loopback_platform (driver_of HAL_CRYP_STATE_READY [bound_slot, free_slot])
        (bound_ctx 0) (pkt_of [1, 2, 3, 4] 32) (replicate 32 7) \<noteq> AssertFailed
   \<and> 16 < ctr_ivlen ((bound_ctx 0)\<lparr>keylen := 32\<rparr>)
   \<and> ctr_ivlen ((bound_ctx 0)\<lparr>keylen := 32\<rparr>) = 28
   \<and> crypto_stm32_ctr_encrypt loopback_platform (driver_of HAL_CRYP_STATE_READY [bound_slot, free_slot])
        ((bound_ctx 0)\<lparr>keylen := 32\<rparr>) (pkt_of [1, 2, 3, 4] 32) (replicate 32 7) = AssertFailed
   \<and> crypto_stm32_ctr_encrypt (loopback_platform\<lparr>CONFIG_ASSERT := False\<rparr>)
        (driver_of HAL_CRYP_STATE_READY [bound_slot, free_slot])
        ((bound_ctx 0)\<lparr>keylen := 32\<rparr>) (pkt_of [1, 2, 3, 4] 32) (replicate 32 7) = Undefined"
proof -
  let ?S = "driver_of HAL_CRYP_STATE_READY [bound_slot, free_slot]"
  let ?P = "pkt_of [1, 2, 3, 4] 32"
  let ?C = "(bound_ctx 0)\<lparr>keylen := 32\<rparr>"
  have a: "ctr_ivlen (bound_ctx 0) \<le> 16" by (simp add: ctr_ivlen_eq)
  have b: "16 < ctr_ivlen ?C" by (simp add: ctr_ivlen_eq)
  have k: "keylen ?C = 32 \<and> ctr_len ?C = 32" by simp
  from ctr_ivlen_precondition [of "bound_ctx 0" "replicate 32 7" loopback_platform ?S ?P] a
  have 1: "crypto_stm32_ctr_encrypt loopback_platform ?S (bound_ctx 0) ?P (replicate 32 7) \<noteq> AssertFailed"
    by blast
  from ctr_ivlen_precondition [of ?C "replicate 32 7" loopback_platform ?S ?P] b k
  have 2: "crypto_stm32_ctr_encrypt loopback_platform ?S ?C ?P (replicate 32 7) = AssertFailed"
    and 3: "ctr_ivlen ?C = 28"
    by simp_all
  from ctr_ivlen_precondition [of ?C "replicate 32 7" "loopback_platform\<lparr>CONFIG_ASSERT := False\<rparr>" ?S ?P] b
  have 4: "crypto_stm32_ctr_encrypt (loopback_platform\<lparr>CONFIG_ASSERT := False\<rparr>) ?S ?C ?P (replicate 32 7) = Undefined"
    by simp
  from a b 1 2 3 4 show ?thesis by blast
qed

text \<open>
  The condition \<open>ivlen \<le> 16\<close> is not enough for a CTR operation to be defined: a counter
  longer than the key gives a negative \<open>ivlen\<close>, which the assertion lets through and
  \<open>memcpy\<close> takes as a length.
\<close>

lemma ctr_negative_ivlen:
  assumes "ctr_ivlen ctx < 0"
  shows "crypto_stm32_ctr_encrypt p st ctx pkt iv = Undefined"
    and "crypto_stm32_ctr_decrypt p st ctx pkt iv = Undefined"
  using assms
  by (simp_all add: crypto_stm32_ctr_encrypt_def crypto_stm32_ctr_decrypt_def Let_def
        copy_reverse_words_def memcpy_def)

lemma ctr_negative_ivlen_example:
  "ctr_ivlen ((bound_ctx 0)\<lparr>ctr_len := 256\<rparr>) = - 16"
  by (simp add: ctr_ivlen_eq)

subsection \<open>Acquiring a slot\<close>

lemma get_unused_loop_skip:
  assumes "i \<le> k" and "k \<le> CRYPTO_MAX_SESSION st"
    and "\<forall>j. i \<le> j \<and> j < k \<longrightarrow> in_use (crypto_stm32_sessions st ! j)"
  shows "get_unused_session_index_loop st i = get_unused_session_index_loop st k"
  using assms
proof (induction "k - i" arbitrary: i)
  case 0
  then show ?case by simp
next
  case (Suc n)
  then have lt: "i < k" and use: "in_use (crypto_stm32_sessions st ! i)" by auto
  have "get_unused_session_index_loop st i = get_unused_session_index_loop st (i + 1)"
    using lt use Suc.prems(2) by (simp add: get_unused_session_index_loop.simps [of st i])
  also have "\<dots> = get_unused_session_index_loop st k"
    using Suc lt by (intro Suc.hyps(1)) auto
  finally show ?case .
qed

lemma first_unused_le: "first_unused ss \<le> length ss"
  by (simp add: first_unused_def length_takeWhile_le)

lemma first_unused_before: "j < first_unused ss \<Longrightarrow> in_use (ss ! j)"
  unfolding first_unused_def
  by (metis nth_mem set_takeWhileD takeWhile_nth)

lemma first_unused_at: "first_unused ss < length ss \<Longrightarrow> \<not> in_use (ss ! first_unused ss)"
  unfolding first_unused_def by (rule nth_length_takeWhile)

lemma first_unused_eqI:
  assumes "k < length ss" "\<not> in_use (ss ! k)" "\<forall>j<k. in_use (ss ! j)"
  shows "first_unused ss = k"
proof -
  have "\<not> k < first_unused ss" using first_unused_before assms(2) by blast
  moreover have "\<not> first_unused ss < k"
    using first_unused_at [of ss] assms(1,3) by (meson less_trans)
  ultimately show ?thesis by simp
qed

lemma first_unused_full: "first_unused ss = length ss \<longleftrightarrow> (\<forall>s\<in>set ss. in_use s)"
  by (induction ss) (auto simp: first_unused_def)

lemma get_unused_session_index_eq:
  "crypto_stm32_get_unused_session_index st =
     (let k = first_unused (crypto_stm32_sessions st) in
      if k < CRYPTO_MAX_SESSION st
      then (int k, k_sem_give session_sem (update_session k (\<lambda>s. s\<lparr>in_use := True\<rparr>)
                       (k_sem_take session_sem st)))
      else (- 1, k_sem_give session_sem (k_sem_take session_sem st)))"
proof -
  define st1 where "st1 = k_sem_take session_sem st"
  define k where "k = first_unused (crypto_stm32_sessions st)"
  have ss: "crypto_stm32_sessions st1 = crypto_stm32_sessions st"
    and n: "CRYPTO_MAX_SESSION st1 = CRYPTO_MAX_SESSION st"
    by (simp_all add: st1_def)
  have kle: "k \<le> CRYPTO_MAX_SESSION st1"
    by (simp add: k_def CRYPTO_MAX_SESSION_def ss first_unused_le)
  have "get_unused_session_index_loop st1 0 = get_unused_session_index_loop st1 k"
    by (rule get_unused_loop_skip) (use kle first_unused_before in \<open>auto simp: k_def ss\<close>)
  also have "\<dots> = (if k < CRYPTO_MAX_SESSION st
      then (int k, k_sem_give session_sem (update_session k (\<lambda>s. s\<lparr>in_use := True\<rparr>) st1))
      else (- 1, k_sem_give session_sem st1))"
  proof -
    have "k < CRYPTO_MAX_SESSION st \<Longrightarrow> \<not> in_use (crypto_stm32_sessions st1 ! k)"
      using first_unused_at [of "crypto_stm32_sessions st"] by (simp add: k_def ss CRYPTO_MAX_SESSION_def)
    then show ?thesis
      by (simp add: get_unused_session_index_loop.simps [of st1 k] n)
  qed
  finally show ?thesis
    by (simp add: crypto_stm32_get_unused_session_index_def st1_def k_def Let_def)
qed

lemma session_free_loop_eq:
  "session_free_loop st i = (\<exists>j. i \<le> j \<and> j < CRYPTO_MAX_SESSION st \<and> in_use (crypto_stm32_sessions st ! j))"
proof (induction st i rule: session_free_loop.induct)
  case (1 st i)
  show ?case
  proof (cases "i < CRYPTO_MAX_SESSION st")
    case False
    then show ?thesis by (simp add: session_free_loop.simps [of st i])
  next
    case True
    show ?thesis
    proof (cases "in_use (crypto_stm32_sessions st ! i)")
      case True
      with \<open>i < CRYPTO_MAX_SESSION st\<close> show ?thesis
        by (auto simp: session_free_loop.simps [of st i])
    next
      case False
      have "session_free_loop st i = session_free_loop st (i + 1)"
        using False \<open>i < CRYPTO_MAX_SESSION st\<close> by (simp add: session_free_loop.simps [of st i])
      also have "\<dots> = (\<exists>j. i + 1 \<le> j \<and> j < CRYPTO_MAX_SESSION st \<and> in_use (crypto_stm32_sessions st ! j))"
        using "1.IH" [OF \<open>i < CRYPTO_MAX_SESSION st\<close> False] .
      also have "\<dots> = (\<exists>j. i \<le> j \<and> j < CRYPTO_MAX_SESSION st \<and> in_use (crypto_stm32_sessions st ! j))"
      proof -
        have "i + 1 \<le> j" if "i \<le> j" "in_use (crypto_stm32_sessions st ! j)" for j
          using that False by (cases "j = i") auto
        then show ?thesis by (metis Suc_eq_plus1 Suc_leD)
      qed
      finally show ?thesis .
    qed
  qed
qed

lemma first_unused_simps [simp]:
  "first_unused [] = 0"
  "first_unused (s # ss) = (if in_use s then Suc (first_unused ss) else 0)"
  by (simp_all add: first_unused_def)

subsection \<open>Session setup\<close>

text \<open>
  C6. A setup with a capability flag outside the supported ones, an algorithm other
  than AES, a mode other than ECB, CBC and CTR, or a key length other than 16, 24 and 32
  returns \<open>-EINVAL\<close> and leaves the state and the context as they were: no slot is claimed
  and nothing is added to the trace, so no call into the HAL was made.
\<close>

theorem session_setup_rejects_invalid:
  "(ucast (flags ctx) :: u32) AND NOT (CRYP_SUPPORT p) \<noteq> 0
     \<or> algo \<noteq> CRYPTO_CIPHER_ALGO_AES
     \<or> mode \<notin> {CRYPTO_CIPHER_MODE_ECB, CRYPTO_CIPHER_MODE_CBC, CRYPTO_CIPHER_MODE_CTR}
     \<or> keylen ctx \<notin> {16, 24, 32}
   \<longrightarrow> crypto_stm32_session_setup p st dev ctx algo mode op_type = Returns (- EINVAL, st, ctx)"
  by (auto simp: crypto_stm32_session_setup_def)

theorem session_setup_rejects_invalid_witness:
  "keylen (aes128_ctx\<lparr>keylen := 17\<rparr>) \<notin> {16, 24, 32}
   \<and> crypto_stm32_session_setup loopback_platform (driver_of HAL_CRYP_STATE_RESET [free_slot, free_slot]) 0
        (aes128_ctx\<lparr>keylen := 17\<rparr>) CRYPTO_CIPHER_ALGO_AES CRYPTO_CIPHER_MODE_CBC CRYPTO_CIPHER_OP_ENCRYPT
       = Returns (- EINVAL, driver_of HAL_CRYP_STATE_RESET [free_slot, free_slot], aes128_ctx\<lparr>keylen := 17\<rparr>)
   \<and> CRYPTO_CIPHER_MODE_CCM \<notin> {CRYPTO_CIPHER_MODE_ECB, CRYPTO_CIPHER_MODE_CBC, CRYPTO_CIPHER_MODE_CTR}
   \<and> crypto_stm32_session_setup loopback_platform (driver_of HAL_CRYP_STATE_RESET [free_slot, free_slot]) 0
        aes128_ctx CRYPTO_CIPHER_ALGO_AES CRYPTO_CIPHER_MODE_CCM CRYPTO_CIPHER_OP_ENCRYPT
       = Returns (- EINVAL, driver_of HAL_CRYP_STATE_RESET [free_slot, free_slot], aes128_ctx)
   \<and> crypto_stm32_session_setup loopback_platform (driver_of HAL_CRYP_STATE_RESET [free_slot, free_slot]) 0
        aes128_ctx CRYPTO_CIPHER_ALGO_OTHER CRYPTO_CIPHER_MODE_CBC CRYPTO_CIPHER_OP_ENCRYPT
       = Returns (- EINVAL, driver_of HAL_CRYP_STATE_RESET [free_slot, free_slot], aes128_ctx)
   \<and> (ucast (flags (aes128_ctx\<lparr>flags := 4\<rparr>)) :: u32) AND NOT (CRYP_SUPPORT loopback_platform) \<noteq> 0
   \<and> crypto_stm32_session_setup loopback_platform (driver_of HAL_CRYP_STATE_RESET [free_slot, free_slot]) 0
        (aes128_ctx\<lparr>flags := 4\<rparr>) CRYPTO_CIPHER_ALGO_AES CRYPTO_CIPHER_MODE_CBC CRYPTO_CIPHER_OP_ENCRYPT
       = Returns (- EINVAL, driver_of HAL_CRYP_STATE_RESET [free_slot, free_slot], aes128_ctx\<lparr>flags := 4\<rparr>)"
proof -
  let ?S = "driver_of HAL_CRYP_STATE_RESET [free_slot, free_slot]"
  have k: "keylen (aes128_ctx\<lparr>keylen := 17\<rparr>) \<notin> {16, 24, 32}" by simp
  have m: "CRYPTO_CIPHER_MODE_CCM \<notin> {CRYPTO_CIPHER_MODE_ECB, CRYPTO_CIPHER_MODE_CBC, CRYPTO_CIPHER_MODE_CTR}"
    by simp
  have f: "(ucast (flags (aes128_ctx\<lparr>flags := 4\<rparr>)) :: u32) AND NOT (CRYP_SUPPORT loopback_platform) \<noteq> 0"
    by simp
  note t = session_setup_rejects_invalid [of _ loopback_platform _ _ ?S 0]
  from t [of "aes128_ctx\<lparr>keylen := 17\<rparr>" CRYPTO_CIPHER_ALGO_AES CRYPTO_CIPHER_MODE_CBC CRYPTO_CIPHER_OP_ENCRYPT] k
  have 1: "crypto_stm32_session_setup loopback_platform ?S 0
        (aes128_ctx\<lparr>keylen := 17\<rparr>) CRYPTO_CIPHER_ALGO_AES CRYPTO_CIPHER_MODE_CBC CRYPTO_CIPHER_OP_ENCRYPT
       = Returns (- EINVAL, ?S, aes128_ctx\<lparr>keylen := 17\<rparr>)" by blast
  from t [of aes128_ctx CRYPTO_CIPHER_ALGO_AES CRYPTO_CIPHER_MODE_CCM CRYPTO_CIPHER_OP_ENCRYPT] m
  have 2: "crypto_stm32_session_setup loopback_platform ?S 0
        aes128_ctx CRYPTO_CIPHER_ALGO_AES CRYPTO_CIPHER_MODE_CCM CRYPTO_CIPHER_OP_ENCRYPT
       = Returns (- EINVAL, ?S, aes128_ctx)" by blast
  from t [of aes128_ctx CRYPTO_CIPHER_ALGO_OTHER CRYPTO_CIPHER_MODE_CBC CRYPTO_CIPHER_OP_ENCRYPT]
  have 3: "crypto_stm32_session_setup loopback_platform ?S 0
        aes128_ctx CRYPTO_CIPHER_ALGO_OTHER CRYPTO_CIPHER_MODE_CBC CRYPTO_CIPHER_OP_ENCRYPT
       = Returns (- EINVAL, ?S, aes128_ctx)" by simp
  from t [of "aes128_ctx\<lparr>flags := 4\<rparr>" CRYPTO_CIPHER_ALGO_AES CRYPTO_CIPHER_MODE_CBC CRYPTO_CIPHER_OP_ENCRYPT] f
  have 4: "crypto_stm32_session_setup loopback_platform ?S 0
        (aes128_ctx\<lparr>flags := 4\<rparr>) CRYPTO_CIPHER_ALGO_AES CRYPTO_CIPHER_MODE_CBC CRYPTO_CIPHER_OP_ENCRYPT
       = Returns (- EINVAL, ?S, aes128_ctx\<lparr>flags := 4\<rparr>)" by blast
  from k m f 1 2 3 4 show ?thesis by blast
qed

lemma session_setup_invalid:
  assumes "\<not> ((ucast (flags ctx) :: u32) AND NOT (CRYP_SUPPORT p) = 0
     \<and> algo = CRYPTO_CIPHER_ALGO_AES
     \<and> mode \<in> {CRYPTO_CIPHER_MODE_ECB, CRYPTO_CIPHER_MODE_CBC, CRYPTO_CIPHER_MODE_CTR}
     \<and> keylen ctx \<in> {16, 24, 32})"
  shows "crypto_stm32_session_setup p st dev ctx algo mode op_type = Returns (- EINVAL, st, ctx)"
  using assms by (auto simp: crypto_stm32_session_setup_def)

lemma map_update_same: "(map f xs)[i := f (xs ! i)] = map f xs"
  by (cases "i < length xs") (simp_all add: list_update_same_conv list_update_beyond)

lemma setup_mode_ctx:
  assumes "setup_mode p mode op_type (cfg, ctx) = (cfg', ctx')"
  shows "key_bit_stream ctx' = key_bit_stream ctx" and "keylen ctx' = keylen ctx"
  using assms
  by (auto simp: setup_mode_def split: cipher_mode.splits if_splits)

lemma session_setup_bind_Returns:
  assumes "session_setup_bind p st i dev ctx mode op_type = Returns (ret, st', ctx')"
  shows "ret = 0 \<and> hcryp st' = hcryp st \<and> trace st' = trace st
         \<and> drv_sessn_state ctx' = Some i \<and> device ctx' = Some dev
         \<and> (\<exists>s. crypto_stm32_sessions st' = (crypto_stm32_sessions st)[i := s]
                \<and> in_use s = in_use (crypto_stm32_sessions st ! i)
                \<and> length (key s) = length (key (crypto_stm32_sessions st ! i)))"
proof -
  define session where "session = crypto_stm32_sessions st ! i"
  obtain cfg ctx1 where m: "setup_mode p mode op_type (setup_KeySize p ctx (config session), ctx) = (cfg, ctx1)"
    by (cases "setup_mode p mode op_type (setup_KeySize p ctx (config session), ctx)") auto
  from assms m obtain k where
    k: "copy_reverse_words (CONFIG_ASSERT p) (key session) CRYPTO_STM32_AES_MAX_KEY_LEN
          (key_bit_stream ctx1) (uint (keylen ctx1)) = Returns k"
    by (auto simp: session_setup_bind_def Let_def session_def split: outcome.splits)
  define s where "s = session\<lparr>config := cfg\<lparr>pKey := Some k, DataType := CRYP_DATATYPE_8B p,
                         DataWidthUnit := CRYP_DATAWIDTHUNIT_BYTE p\<rparr>, key := k\<rparr>"
  from assms m k have r: "ret = 0" "st' = update_session i (\<lambda>x. x\<lparr>config := cfg\<lparr>pKey := Some k,
        DataType := CRYP_DATATYPE_8B p, DataWidthUnit := CRYP_DATAWIDTHUNIT_BYTE p\<rparr>, key := k\<rparr>) st"
      "ctx' = ctx1\<lparr>drv_sessn_state := Some i, device := Some dev\<rparr>"
    by (simp_all add: session_setup_bind_def Let_def session_def)
  have 1: "crypto_stm32_sessions st' = (crypto_stm32_sessions st)[i := s]"
    by (simp add: r(2) s_def session_def)
  have 2: "in_use s = in_use (crypto_stm32_sessions st ! i)"
    by (simp add: s_def session_def)
  have 3: "length (key s) = length (key (crypto_stm32_sessions st ! i))"
    using copy_reverse_words_length [OF k] by (simp add: s_def session_def)
  from r 1 2 3 show ?thesis by (auto simp: r(2))
qed

lemma session_setup_bind_succeeds:
  assumes "keylen ctx \<in> {16, 24, 32}"
    and "unat (keylen ctx) \<le> length (key_bit_stream ctx)"
    and "length (key (crypto_stm32_sessions st ! i)) = 32"
  shows "\<exists>st' ctx'. session_setup_bind p st i dev ctx mode op_type = Returns (0, st', ctx')"
proof -
  obtain cfg ctx' where m: "setup_mode p mode op_type
        (setup_KeySize p ctx (config (crypto_stm32_sessions st ! i)), ctx) = (cfg, ctx')"
    by (cases "setup_mode p mode op_type
        (setup_KeySize p ctx (config (crypto_stm32_sessions st ! i)), ctx)") auto
  note c = setup_mode_ctx [OF m]
  have len: "uint (keylen ctx) \<le> 32" "0 \<le> uint (keylen ctx)"
    using assms(1) by auto
  have src: "uint (keylen ctx) \<le> int (length (key_bit_stream ctx))"
    using assms(2) by (simp only: unat_eq_nat_uint nat_le_iff)
  have dst: "32 \<le> int (length (key (crypto_stm32_sessions st ! i)))"
    using assms(3) by simp
  have "(32::int) mod 4 = 0" by simp
  from copy_reverse_words_closed [OF len(2) len(1) dst src this, of "CONFIG_ASSERT p"]
  have "\<exists>k. copy_reverse_words (CONFIG_ASSERT p) (key (crypto_stm32_sessions st ! i))
          CRYPTO_STM32_AES_MAX_KEY_LEN (key_bit_stream ctx') (uint (keylen ctx')) = Returns k"
    by (simp only: c CRYPTO_STM32_AES_MAX_KEY_LEN_def) blast
  then obtain k where "copy_reverse_words (CONFIG_ASSERT p) (key (crypto_stm32_sessions st ! i))
          CRYPTO_STM32_AES_MAX_KEY_LEN (key_bit_stream ctx') (uint (keylen ctx')) = Returns k" ..
  then show ?thesis
    using m by (simp add: session_setup_bind_def Let_def)
qed

lemma session_setup_valid:
  assumes "(ucast (flags ctx) :: u32) AND NOT (CRYP_SUPPORT p) = 0"
    and "algo = CRYPTO_CIPHER_ALGO_AES"
    and "mode \<in> {CRYPTO_CIPHER_MODE_ECB, CRYPTO_CIPHER_MODE_CBC, CRYPTO_CIPHER_MODE_CTR}"
    and "keylen ctx \<in> {16, 24, 32}"
  shows "crypto_stm32_session_setup p st dev ctx algo mode op_type =
    (let k = first_unused (crypto_stm32_sessions st) in
     if CRYPTO_MAX_SESSION st \<le> k
     then Returns (- ENOSPC, k_sem_give session_sem (k_sem_take session_sem st), ctx)
     else
       let st2 = update_session k (\<lambda>s. s\<lparr>config := zero_config\<rparr>)
                   (k_sem_give session_sem (update_session k (\<lambda>s. s\<lparr>in_use := True\<rparr>)
                       (k_sem_take session_sem st)))
       in if State (hcryp st) = HAL_CRYP_STATE_RESET
          then
            let (status, h) = HAL_CRYP_Init p (hcryp st);
                st3 = log_event CALL_HAL_CRYP_Init (st2\<lparr>hcryp := h\<rparr>)
            in if status \<noteq> HAL_OK
               then Returns (- EIO, update_session k (\<lambda>s. s\<lparr>in_use := False\<rparr>) st3, ctx)
               else session_setup_bind p st3 k dev ctx mode op_type
          else session_setup_bind p st2 k dev ctx mode op_type)"
proof -
  have c: "\<not> ((ucast (flags ctx) :: u32) AND NOT (CRYP_SUPPORT p) \<noteq> 0)"
      "\<not> algo \<noteq> CRYPTO_CIPHER_ALGO_AES"
      "\<not> (mode \<noteq> CRYPTO_CIPHER_MODE_ECB \<and> mode \<noteq> CRYPTO_CIPHER_MODE_CBC
              \<and> mode \<noteq> CRYPTO_CIPHER_MODE_CTR)"
      "\<not> (keylen ctx \<noteq> 16 \<and> keylen ctx \<noteq> 24 \<and> keylen ctx \<noteq> 32)"
    using assms by auto
  define k where "k = first_unused (crypto_stm32_sessions st)"
  have u: "crypto_stm32_session_setup p st dev ctx algo mode op_type =
        (let (ctx_idx, st1) = crypto_stm32_get_unused_session_index st
        in if ctx_idx < 0 then Returns (- ENOSPC, st1, ctx)
           else
             let i = nat ctx_idx;
                 st2 = update_session i (\<lambda>s. s\<lparr>config := zero_config\<rparr>) st1
             in if State (hcryp st2) = HAL_CRYP_STATE_RESET
                then
                  let (status, h) = HAL_CRYP_Init p (hcryp st2);
                      st3 = log_event CALL_HAL_CRYP_Init (st2\<lparr>hcryp := h\<rparr>)
                  in if status \<noteq> HAL_OK
                     then Returns (- EIO, update_session i (\<lambda>s. s\<lparr>in_use := False\<rparr>) st3, ctx)
                     else session_setup_bind p st3 i dev ctx mode op_type
                else session_setup_bind p st2 i dev ctx mode op_type)"
    unfolding crypto_stm32_session_setup_def by (simp only: c if_False)
  show ?thesis
  proof (cases "k < CRYPTO_MAX_SESSION st")
    case True
    then have g: "crypto_stm32_get_unused_session_index st =
        (int k, k_sem_give session_sem (update_session k (\<lambda>s. s\<lparr>in_use := True\<rparr>)
                       (k_sem_take session_sem st)))"
      by (simp add: get_unused_session_index_eq k_def [symmetric])
    show ?thesis
      using True by (simp add: u g k_def [symmetric] Let_def)
  next
    case False
    then have g: "crypto_stm32_get_unused_session_index st =
        (- 1, k_sem_give session_sem (k_sem_take session_sem st))"
      by (simp add: get_unused_session_index_eq k_def [symmetric])
    show ?thesis
      using False by (simp add: u g k_def [symmetric] Let_def)
  qed
qed

lemma claimed_slot:
  assumes "k < length ss" and "\<not> in_use (ss ! k)"
  defines "ss2 \<equiv> ss[k := (ss ! k)\<lparr>in_use := True\<rparr>, k := (ss[k := (ss ! k)\<lparr>in_use := True\<rparr>] ! k)\<lparr>config := zero_config\<rparr>]"
  shows "length ss2 = length ss"
    and "map in_use ss2 = (map in_use ss)[k := True]"
    and "map (\<lambda>s. length (key s)) ss2 = map (\<lambda>s. length (key s)) ss"
    and "in_use (ss2 ! k)"
    and "map in_use (ss2[k := (ss2 ! k)\<lparr>in_use := False\<rparr>]) = map in_use ss"
    and "map (\<lambda>s. length (key s)) (ss2[k := (ss2 ! k)\<lparr>in_use := False\<rparr>]) = map (\<lambda>s. length (key s)) ss"
proof -
  have e: "ss2 = ss[k := (ss ! k)\<lparr>in_use := True, config := zero_config\<rparr>]"
    using assms(1) by (simp add: ss2_def)
  show "length ss2 = length ss" by (simp add: e)
  show "map in_use ss2 = (map in_use ss)[k := True]" by (simp add: e map_update)
  have "map (\<lambda>s. length (key s)) ss2 = (map (\<lambda>s. length (key s)) ss)[k := length (key (ss ! k))]"
    by (simp add: e map_update)
  then show m: "map (\<lambda>s. length (key s)) ss2 = map (\<lambda>s. length (key s)) ss"
    by (simp only: map_update_same [of "\<lambda>s. length (key s)" ss k])
  show "in_use (ss2 ! k)" using assms(1) by (simp add: e)
  have "map in_use (ss2[k := (ss2 ! k)\<lparr>in_use := False\<rparr>]) = (map in_use ss)[k := in_use (ss ! k)]"
    using assms(1,2) by (simp add: e map_update)
  then show "map in_use (ss2[k := (ss2 ! k)\<lparr>in_use := False\<rparr>]) = map in_use ss"
    by (simp only: map_update_same [of in_use ss k])
  have "map (\<lambda>s. length (key s)) (ss2[k := (ss2 ! k)\<lparr>in_use := False\<rparr>])
          = (map (\<lambda>s. length (key s)) ss)[k := length (key (ss ! k))]"
    using assms(1) by (simp add: e map_update)
  then show "map (\<lambda>s. length (key s)) (ss2[k := (ss2 ! k)\<lparr>in_use := False\<rparr>]) = map (\<lambda>s. length (key s)) ss"
    by (simp only: map_update_same [of "\<lambda>s. length (key s)" ss k])
qed

lemma session_setup_Returns:
  assumes r: "crypto_stm32_session_setup p st dev ctx algo mode op_type = Returns (ret, st', ctx')"
  shows "length (crypto_stm32_sessions st') = length (crypto_stm32_sessions st)
     \<and> map (\<lambda>s. length (key s)) (crypto_stm32_sessions st')
         = map (\<lambda>s. length (key s)) (crypto_stm32_sessions st)
     \<and> (if ret = 0
         then first_unused (crypto_stm32_sessions st) < CRYPTO_MAX_SESSION st
              \<and> drv_sessn_state ctx' = Some (first_unused (crypto_stm32_sessions st))
              \<and> device ctx' = Some dev
              \<and> map in_use (crypto_stm32_sessions st')
                  = (map in_use (crypto_stm32_sessions st))[first_unused (crypto_stm32_sessions st) := True]
         else map in_use (crypto_stm32_sessions st') = map in_use (crypto_stm32_sessions st)
              \<and> ctx' = ctx \<and> ret \<in> {- EINVAL, - ENOSPC, - EIO})"
proof (cases "(ucast (flags ctx) :: u32) AND NOT (CRYP_SUPPORT p) = 0
     \<and> algo = CRYPTO_CIPHER_ALGO_AES
     \<and> mode \<in> {CRYPTO_CIPHER_MODE_ECB, CRYPTO_CIPHER_MODE_CBC, CRYPTO_CIPHER_MODE_CTR}
     \<and> keylen ctx \<in> {16, 24, 32}")
  case False
  from session_setup_invalid [OF False, of st dev op_type] r show ?thesis
    by (simp add: EINVAL_def)
next
  case True
  then have sup: "(ucast (flags ctx) :: u32) AND NOT (CRYP_SUPPORT p) = 0"
      "algo = CRYPTO_CIPHER_ALGO_AES"
      "mode \<in> {CRYPTO_CIPHER_MODE_ECB, CRYPTO_CIPHER_MODE_CBC, CRYPTO_CIPHER_MODE_CTR}"
      "keylen ctx \<in> {16, 24, 32}"
    by simp_all
  define ss where "ss = crypto_stm32_sessions st"
  define k where "k = first_unused ss"
  note eq = session_setup_valid [OF sup, of st dev op_type, folded ss_def k_def]
  show ?thesis
  proof (cases "CRYPTO_MAX_SESSION st \<le> k")
    case full: True
    with eq r have "ret = - ENOSPC" "ctx' = ctx" "crypto_stm32_sessions st' = ss"
      by (auto simp: Let_def ss_def)
    then show ?thesis by (simp add: ss_def ENOSPC_def)
  next
    case free: False
    then have kl: "k < length ss" by (simp add: CRYPTO_MAX_SESSION_def ss_def)
    have nu: "\<not> in_use (ss ! k)" using first_unused_at [of ss] kl by (simp add: k_def)
    define st2 where "st2 = update_session k (\<lambda>s. s\<lparr>config := zero_config\<rparr>)
                   (k_sem_give session_sem (update_session k (\<lambda>s. s\<lparr>in_use := True\<rparr>)
                       (k_sem_take session_sem st)))"
    define ss2 where "ss2 = crypto_stm32_sessions st2"
    have ss2: "ss2 = ss[k := (ss ! k)\<lparr>in_use := True\<rparr>, k := (ss[k := (ss ! k)\<lparr>in_use := True\<rparr>] ! k)\<lparr>config := zero_config\<rparr>]"
      by (simp add: ss2_def st2_def ss_def)
    note c = claimed_slot [OF kl nu, folded ss2]
    obtain status h where i: "HAL_CRYP_Init p (hcryp st) = (status, h)"
      by (cases "HAL_CRYP_Init p (hcryp st)") auto
    define st3 where "st3 = log_event CALL_HAL_CRYP_Init (st2\<lparr>hcryp := h\<rparr>)"
    have s3: "crypto_stm32_sessions st3 = ss2" by (simp add: st3_def ss2_def)
    have "(ret = - EIO \<and> ctx' = ctx \<and> st' = update_session k (\<lambda>s. s\<lparr>in_use := False\<rparr>) st3)
        \<or> (\<exists>X. crypto_stm32_sessions X = ss2
              \<and> session_setup_bind p X k dev ctx mode op_type = Returns (ret, st', ctx'))"
    proof (cases "State (hcryp st) = HAL_CRYP_STATE_RESET")
      case reset: True
      show ?thesis
      proof (cases "status = HAL_OK")
        case True
        with reset free i r have "session_setup_bind p st3 k dev ctx mode op_type = Returns (ret, st', ctx')"
          by (simp add: eq Let_def st2_def [symmetric] st3_def [symmetric])
        with s3 show ?thesis by blast
      next
        case False
        with reset free i r have "Returns (- EIO, update_session k (\<lambda>s. s\<lparr>in_use := False\<rparr>) st3, ctx)
            = Returns (ret, st', ctx')"
          by (simp add: eq Let_def st2_def [symmetric] st3_def [symmetric])
        then show ?thesis by simp
      qed
    next
      case False
      with free r have "session_setup_bind p st2 k dev ctx mode op_type = Returns (ret, st', ctx')"
        by (simp add: eq Let_def st2_def [symmetric])
      then show ?thesis using ss2_def by blast
    qed
    then consider (fail) "ret = - EIO" "ctx' = ctx" "st' = update_session k (\<lambda>s. s\<lparr>in_use := False\<rparr>) st3"
      | (bind) X where "crypto_stm32_sessions X = ss2"
          "session_setup_bind p X k dev ctx mode op_type = Returns (ret, st', ctx')"
      by blast
    then show ?thesis
    proof cases
      case fail
      then have "crypto_stm32_sessions st' = ss2[k := (ss2 ! k)\<lparr>in_use := False\<rparr>]"
        by (simp add: s3)
      with c fail show ?thesis by (simp add: ss_def [symmetric] EIO_def)
    next
      case bind
      from session_setup_bind_Returns [OF bind(2)] bind(1)
      obtain s where b: "ret = 0" "drv_sessn_state ctx' = Some k" "device ctx' = Some dev"
        "crypto_stm32_sessions st' = ss2[k := s]" "in_use s = in_use (ss2 ! k)"
        "length (key s) = length (key (ss2 ! k))"
        by auto
      have m1: "map in_use (ss2[k := s]) = (map in_use ss)[k := True]"
        using c(2,4) b(5) by (simp add: map_update)
      have "map (\<lambda>s. length (key s)) (ss2[k := s]) = (map (\<lambda>s. length (key s)) ss2)[k := length (key (ss2 ! k))]"
        using b(6) by (simp add: map_update)
      then have "map (\<lambda>s. length (key s)) (ss2[k := s]) = map (\<lambda>s. length (key s)) ss2"
        by (simp only: map_update_same [of "\<lambda>s. length (key s)" ss2 k])
      then have m2: "map (\<lambda>s. length (key s)) (ss2[k := s]) = map (\<lambda>s. length (key s)) ss"
        by (simp only: c(3))
      show ?thesis
        using b m1 m2 c(1) free by (simp add: ss_def [symmetric] k_def [symmetric])
    qed
  qed
qed

lemma session_setup_succeeds:
  assumes v: "valid_request p ctx algo mode"
    and k: "first_unused (crypto_stm32_sessions st) < CRYPTO_MAX_SESSION st"
    and len: "length (key (crypto_stm32_sessions st ! first_unused (crypto_stm32_sessions st))) = 32"
    and hw: "State (hcryp st) \<noteq> HAL_CRYP_STATE_RESET \<or> fst (HAL_CRYP_Init p (hcryp st)) = HAL_OK"
  shows "\<exists>st' ctx'. crypto_stm32_session_setup p st dev ctx algo mode op_type = Returns (0, st', ctx')"
proof -
  define ss where "ss = crypto_stm32_sessions st"
  define k where "k = first_unused ss"
  from v have sup: "(ucast (flags ctx) :: u32) AND NOT (CRYP_SUPPORT p) = 0"
      "algo = CRYPTO_CIPHER_ALGO_AES"
      "mode \<in> {CRYPTO_CIPHER_MODE_ECB, CRYPTO_CIPHER_MODE_CBC, CRYPTO_CIPHER_MODE_CTR}"
      "keylen ctx \<in> {16, 24, 32}"
    and kb: "unat (keylen ctx) \<le> length (key_bit_stream ctx)"
    by (simp_all add: valid_request_def)
  note eq = session_setup_valid [OF sup, of st dev op_type, folded ss_def k_def]
  have kl: "k < length ss" using assms(2) by (simp add: CRYPTO_MAX_SESSION_def ss_def k_def)
  define st2 where "st2 = update_session k (\<lambda>s. s\<lparr>config := zero_config\<rparr>)
                   (k_sem_give session_sem (update_session k (\<lambda>s. s\<lparr>in_use := True\<rparr>)
                       (k_sem_take session_sem st)))"
  obtain status h where i: "HAL_CRYP_Init p (hcryp st) = (status, h)"
    by (cases "HAL_CRYP_Init p (hcryp st)") auto
  define st3 where "st3 = log_event CALL_HAL_CRYP_Init (st2\<lparr>hcryp := h\<rparr>)"
  have l2: "length (key (crypto_stm32_sessions st2 ! k)) = 32"
    using kl len by (simp add: st2_def ss_def [symmetric] k_def [symmetric])
  then have l3: "length (key (crypto_stm32_sessions st3 ! k)) = 32"
    by (simp add: st3_def)
  from session_setup_bind_succeeds [OF sup(4) kb l2, of p dev mode op_type]
  obtain a2 c2 where b2: "session_setup_bind p st2 k dev ctx mode op_type = Returns (0, a2, c2)" by blast
  from session_setup_bind_succeeds [OF sup(4) kb l3, of p dev mode op_type]
  obtain a3 c3 where b3: "session_setup_bind p st3 k dev ctx mode op_type = Returns (0, a3, c3)" by blast
  show ?thesis
  proof (cases "State (hcryp st) = HAL_CRYP_STATE_RESET")
    case True
    with hw i have "status = HAL_OK" by simp
    with True i b3 kl show ?thesis
      by (simp add: eq Let_def st2_def [symmetric] st3_def [symmetric] CRYPTO_MAX_SESSION_def ss_def [symmetric])
  next
    case False
    with b2 kl show ?thesis
      by (simp add: eq Let_def st2_def [symmetric] CRYPTO_MAX_SESSION_def ss_def [symmetric])
  qed
qed

lemma session_setup_init_fails:
  assumes sup: "(ucast (flags ctx) :: u32) AND NOT (CRYP_SUPPORT p) = 0"
      "algo = CRYPTO_CIPHER_ALGO_AES"
      "mode \<in> {CRYPTO_CIPHER_MODE_ECB, CRYPTO_CIPHER_MODE_CBC, CRYPTO_CIPHER_MODE_CTR}"
      "keylen ctx \<in> {16, 24, 32}"
    and fr: "first_unused (crypto_stm32_sessions st) < CRYPTO_MAX_SESSION st"
    and reset: "State (hcryp st) = HAL_CRYP_STATE_RESET"
    and bad: "fst (HAL_CRYP_Init p (hcryp st)) \<noteq> HAL_OK"
  shows "\<exists>st1. crypto_stm32_session_setup p st dev ctx algo mode op_type = Returns (- EIO, st1, ctx)
            \<and> map in_use (crypto_stm32_sessions st1) = map in_use (crypto_stm32_sessions st)
            \<and> trace st1 = trace st @ [K_SEM_TAKE session_sem, K_SEM_GIVE session_sem, CALL_HAL_CRYP_Init]"
proof -
  define ss where "ss = crypto_stm32_sessions st"
  define k where "k = first_unused ss"
  have kl: "k < length ss" using fr by (simp add: k_def ss_def CRYPTO_MAX_SESSION_def)
  have nu: "\<not> in_use (ss ! k)" using first_unused_at [of ss] kl by (simp add: k_def)
  obtain status h where i: "HAL_CRYP_Init p (hcryp st) = (status, h)"
    by (cases "HAL_CRYP_Init p (hcryp st)") auto
  with bad have st: "status \<noteq> HAL_OK" by simp
  define st2 where "st2 = update_session k (\<lambda>s. s\<lparr>config := zero_config\<rparr>)
                   (k_sem_give session_sem (update_session k (\<lambda>s. s\<lparr>in_use := True\<rparr>)
                       (k_sem_take session_sem st)))"
  define st3 where "st3 = log_event CALL_HAL_CRYP_Init (st2\<lparr>hcryp := h\<rparr>)"
  define st1 where "st1 = update_session k (\<lambda>s. s\<lparr>in_use := False\<rparr>) st3"
  have e: "crypto_stm32_session_setup p st dev ctx algo mode op_type = Returns (- EIO, st1, ctx)"
    using kl reset i st
    by (simp add: session_setup_valid [OF sup] ss_def [symmetric] k_def [symmetric] Let_def
          st2_def [symmetric] st3_def [symmetric] st1_def CRYPTO_MAX_SESSION_def)
  define ss2 where "ss2 = crypto_stm32_sessions st2"
  have ss2: "ss2 = ss[k := (ss ! k)\<lparr>in_use := True\<rparr>, k := (ss[k := (ss ! k)\<lparr>in_use := True\<rparr>] ! k)\<lparr>config := zero_config\<rparr>]"
    by (simp add: ss2_def st2_def ss_def)
  note c = claimed_slot [OF kl nu, folded ss2]
  have "crypto_stm32_sessions st1 = ss2[k := (ss2 ! k)\<lparr>in_use := False\<rparr>]"
    by (simp add: st1_def st3_def ss2_def)
  with c(5) have m: "map in_use (crypto_stm32_sessions st1) = map in_use ss" by simp
  have t: "trace st1 = trace st @ [K_SEM_TAKE session_sem, K_SEM_GIVE session_sem, CALL_HAL_CRYP_Init]"
    by (simp add: st1_def st3_def st2_def)
  from e m t show ?thesis
    unfolding ss_def by blast
qed

subsection \<open>Session free\<close>

lemma session_free_eq:
  assumes "drv_sessn_state ctx = Some i" and "i < CRYPTO_MAX_SESSION st"
    and "other \<longleftrightarrow> (\<exists>j<CRYPTO_MAX_SESSION st. j \<noteq> i \<and> in_use (crypto_stm32_sessions st ! j))"
  shows "crypto_stm32_session_free p st dev ctx =
    (let st2 = k_sem_take session_sem (update_session i (\<lambda>s. s\<lparr>in_use := False\<rparr>) st)
     in if other
        then Returns (0, k_sem_give session_sem st2)
        else
          let (status, h) = HAL_CRYP_DeInit p (hcryp st);
              st3 = log_event CALL_HAL_CRYP_DeInit (st2\<lparr>hcryp := h\<rparr>)
          in if status \<noteq> HAL_OK then Returns (- EIO, k_sem_give session_sem st3)
             else
               let h1 = (hcryp st3)\<lparr>Instance := HAL_RCC_CRYP_FORCE_RESET p (Instance (hcryp st3))\<rparr>;
                   st4 = log_event CALL_HAL_RCC_CRYP_FORCE_RESET (st3\<lparr>hcryp := h1\<rparr>);
                   h2 = (hcryp st4)\<lparr>Instance := HAL_RCC_CRYP_RELEASE_RESET p (Instance (hcryp st4))\<rparr>;
                   st5 = log_event CALL_HAL_RCC_CRYP_RELEASE_RESET (st4\<lparr>hcryp := h2\<rparr>)
               in Returns (0, k_sem_give session_sem st5))"
proof -
  let ?st2 = "k_sem_take session_sem (update_session i (\<lambda>s. s\<lparr>in_use := False\<rparr>) st)"
  have s: "CRYPTO_STM32_SESSN st ctx = Some i"
    using assms by (simp add: CRYPTO_STM32_SESSN_Some)
  have "in_use (crypto_stm32_sessions ?st2 ! j) \<longleftrightarrow> j \<noteq> i \<and> in_use (crypto_stm32_sessions st ! j)"
    if "j < CRYPTO_MAX_SESSION st" for j
    using that assms(2) by (cases "j = i") (simp_all add: CRYPTO_MAX_SESSION_def)
  then have loop: "session_free_loop ?st2 0 \<longleftrightarrow> other"
    by (auto simp: session_free_loop_eq assms(3))
  show ?thesis
    by (simp add: crypto_stm32_session_free_def s loop Let_def)
qed

lemma session_free_Returns:
  assumes "drv_sessn_state ctx = Some i" and "i < CRYPTO_MAX_SESSION st"
  shows "\<exists>ret st'. crypto_stm32_session_free p st dev ctx = Returns (ret, st')
     \<and> crypto_stm32_sessions st' =
          (crypto_stm32_sessions st)[i := (crypto_stm32_sessions st ! i)\<lparr>in_use := False\<rparr>]"
proof -
  define other where "other \<longleftrightarrow> (\<exists>j<CRYPTO_MAX_SESSION st. j \<noteq> i \<and> in_use (crypto_stm32_sessions st ! j))"
  obtain status h where d: "HAL_CRYP_DeInit p (hcryp st) = (status, h)"
    by (cases "HAL_CRYP_DeInit p (hcryp st)") auto
  note eq = session_free_eq [OF assms other_def, of p dev]
  show ?thesis
  proof (cases other)
    case True
    then show ?thesis by (simp add: eq Let_def)
  next
    case False
    then show ?thesis
      by (cases "status = HAL_OK") (simp_all add: eq d Let_def)
  qed
qed

text \<open>
  C8. A free call on a bound context marks the slot not in use on every path and
  leaves the other slots as they were. When another slot is in use it returns 0 and
  makes no call into the HAL. Otherwise it deinitialises the accelerator, and returns
  \<open>-EIO\<close> when that fails and 0 when it succeeds. In every case the next acquire finds a
  free slot, the freed one when the slots before it are in use.
\<close>

theorem session_free_releases_slot:
  assumes "drv_sessn_state ctx = Some i" and "i < CRYPTO_MAX_SESSION st"
  shows "\<exists>ret st'. crypto_stm32_session_free p st dev ctx = Returns (ret, st')
     \<and> crypto_stm32_sessions st' =
          (crypto_stm32_sessions st)[i := (crypto_stm32_sessions st ! i)\<lparr>in_use := False\<rparr>]
     \<and> ((\<exists>j<CRYPTO_MAX_SESSION st. j \<noteq> i \<and> in_use (crypto_stm32_sessions st ! j)) \<longrightarrow>
          ret = 0 \<and> hcryp st' = hcryp st
          \<and> trace st' = trace st @ [K_SEM_TAKE session_sem, K_SEM_GIVE session_sem])
     \<and> (\<not> (\<exists>j<CRYPTO_MAX_SESSION st. j \<noteq> i \<and> in_use (crypto_stm32_sessions st ! j)) \<longrightarrow>
          (\<exists>rest. trace st' = trace st @ K_SEM_TAKE session_sem # CALL_HAL_CRYP_DeInit # rest)
          \<and> ret = (if fst (HAL_CRYP_DeInit p (hcryp st)) = HAL_OK then 0 else - EIO))
     \<and> (\<exists>k st''. crypto_stm32_get_unused_session_index st' = (int k, st'') \<and> k \<le> i
          \<and> in_use (crypto_stm32_sessions st'' ! k)
          \<and> ((\<forall>j<i. in_use (crypto_stm32_sessions st ! j)) \<longrightarrow> k = i))"
proof -
  define ss where "ss = crypto_stm32_sessions st"
  define ss' where "ss' = ss[i := (ss ! i)\<lparr>in_use := False\<rparr>]"
  define other where "other \<longleftrightarrow> (\<exists>j<CRYPTO_MAX_SESSION st. j \<noteq> i \<and> in_use (ss ! j))"
  have il: "i < length ss" using assms(2) by (simp add: ss_def CRYPTO_MAX_SESSION_def)
  obtain status h where d: "HAL_CRYP_DeInit p (hcryp st) = (status, h)"
    by (cases "HAL_CRYP_DeInit p (hcryp st)") auto
  have oth: "other \<longleftrightarrow> (\<exists>j<CRYPTO_MAX_SESSION st. j \<noteq> i \<and> in_use (crypto_stm32_sessions st ! j))"
    by (simp add: other_def ss_def)
  note eq = session_free_eq [OF assms oth, of p dev]
  have "\<exists>ret st'. crypto_stm32_session_free p st dev ctx = Returns (ret, st')
      \<and> crypto_stm32_sessions st' = ss'
      \<and> (other \<longrightarrow> ret = 0 \<and> hcryp st' = hcryp st
          \<and> trace st' = trace st @ [K_SEM_TAKE session_sem, K_SEM_GIVE session_sem])
      \<and> (\<not> other \<longrightarrow> (\<exists>rest. trace st' = trace st @ K_SEM_TAKE session_sem # CALL_HAL_CRYP_DeInit # rest)
          \<and> ret = (if status = HAL_OK then 0 else - EIO))"
  proof (cases other)
    case True
    then show ?thesis by (simp add: eq Let_def ss_def ss'_def)
  next
    case False
    then show ?thesis
      by (cases "status = HAL_OK") (simp_all add: eq d Let_def ss_def ss'_def)
  qed
  then obtain ret st' where r: "crypto_stm32_session_free p st dev ctx = Returns (ret, st')"
    and s: "crypto_stm32_sessions st' = ss'"
    and o: "other \<Longrightarrow> ret = 0 \<and> hcryp st' = hcryp st
          \<and> trace st' = trace st @ [K_SEM_TAKE session_sem, K_SEM_GIVE session_sem]"
    and no: "\<not> other \<Longrightarrow> (\<exists>rest. trace st' = trace st @ K_SEM_TAKE session_sem # CALL_HAL_CRYP_DeInit # rest)
          \<and> ret = (if status = HAL_OK then 0 else - EIO)"
    by blast
  define k where "k = first_unused ss'"
  have free_i: "\<not> in_use (ss' ! i)" using il by (simp add: ss'_def)
  have ki: "k \<le> i"
    using first_unused_before [of i ss'] free_i by (auto simp: k_def not_less [symmetric])
  have kl: "k < CRYPTO_MAX_SESSION st'"
    using ki il s by (simp add: CRYPTO_MAX_SESSION_def ss'_def)
  obtain st'' where g: "crypto_stm32_get_unused_session_index st' = (int k, st'')"
    and g': "crypto_stm32_sessions st'' = ss'[k := (ss' ! k)\<lparr>in_use := True\<rparr>]"
    using kl by (simp add: get_unused_session_index_eq s k_def [symmetric] Let_def)
  have used: "in_use (crypto_stm32_sessions st'' ! k)"
    using kl s by (simp add: g' CRYPTO_MAX_SESSION_def)
  have first: "k = i" if "\<forall>j<i. in_use (ss ! j)"
  proof -
    have "\<forall>j<i. in_use (ss' ! j)" using that by (simp add: ss'_def)
    from first_unused_eqI [OF _ free_i this] il show ?thesis by (simp add: k_def ss'_def)
  qed
  show ?thesis
    using r s o no g ki used first d
    unfolding other_def ss_def ss'_def
    by (intro exI [of _ ret] exI [of _ st'] conjI impI exI [of _ k] exI [of _ st'']) simp_all
qed

theorem session_free_releases_slot_witness:
  "drv_sessn_state (bound_ctx 0) = Some 0
   \<and> 0 < CRYPTO_MAX_SESSION (driver_of HAL_CRYP_STATE_READY [bound_slot, free_slot])
   \<and> (\<exists>st'. crypto_stm32_session_free faulty_platform
          (driver_of HAL_CRYP_STATE_READY [bound_slot, free_slot]) 0 (bound_ctx 0) = Returns (- EIO, st')
        \<and> crypto_stm32_sessions st' = [free_slot, free_slot]
        \<and> fst (crypto_stm32_get_unused_session_index st') = 0)
   \<and> (\<exists>st'. crypto_stm32_session_free faulty_platform
          (driver_of HAL_CRYP_STATE_READY [bound_slot, bound_slot]) 0 (bound_ctx 0) = Returns (0, st')
        \<and> crypto_stm32_sessions st' = [free_slot, bound_slot]
        \<and> trace st' = [K_SEM_TAKE session_sem, K_SEM_GIVE session_sem])"
proof -
  let ?S = "driver_of HAL_CRYP_STATE_READY [bound_slot, free_slot]"
  let ?T = "driver_of HAL_CRYP_STATE_READY [bound_slot, bound_slot]"
  have b: "drv_sessn_state (bound_ctx 0) = Some 0" by simp
  have n: "0 < CRYPTO_MAX_SESSION ?S" "0 < CRYPTO_MAX_SESSION ?T" by simp_all
  have last: "\<not> (\<exists>j<CRYPTO_MAX_SESSION ?S. j \<noteq> 0 \<and> in_use (crypto_stm32_sessions ?S ! j))"
    by (auto simp: less_Suc_eq)
  have other: "\<exists>j<CRYPTO_MAX_SESSION ?T. j \<noteq> 0 \<and> in_use (crypto_stm32_sessions ?T ! j)"
    by (rule exI [of _ 1]) simp
  from session_free_releases_slot [OF b n(1), of faulty_platform 0] last
  have 1: "\<exists>st'. crypto_stm32_session_free faulty_platform ?S 0 (bound_ctx 0) = Returns (- EIO, st')
        \<and> crypto_stm32_sessions st' = [free_slot, free_slot]
        \<and> fst (crypto_stm32_get_unused_session_index st') = 0"
    by (auto simp: simp del: not_ex)
  from session_free_releases_slot [OF b n(2), of faulty_platform 0] other
  have 2: "\<exists>st'. crypto_stm32_session_free faulty_platform ?T 0 (bound_ctx 0) = Returns (0, st')
        \<and> crypto_stm32_sessions st' = [free_slot, bound_slot]
        \<and> trace st' = [K_SEM_TAKE session_sem, K_SEM_GIVE session_sem]"
    by (auto simp: simp del: not_ex)
  from b n 1 2 show ?thesis by blast
qed

text \<open>
  C5 as the claim has it fails: freeing the only live session deinitialises the
  accelerator, and the events of the call hold no acquisition of the device lock.
\<close>

theorem session_free_device_lock_counterexample:
  "crypto_stm32_session_free loopback_platform (driver_of HAL_CRYP_STATE_READY [bound_slot]) 0 (bound_ctx 0)
     = Returns (0, (driver_of HAL_CRYP_STATE_RESET [free_slot])
                     \<lparr>trace := [K_SEM_TAKE session_sem, CALL_HAL_CRYP_DeInit,
                                 CALL_HAL_RCC_CRYP_FORCE_RESET, CALL_HAL_RCC_CRYP_RELEASE_RESET,
                                 K_SEM_GIVE session_sem]\<rparr>)
   \<and> K_SEM_TAKE device_sem \<notin> set [K_SEM_TAKE session_sem, CALL_HAL_CRYP_DeInit,
                                 CALL_HAL_RCC_CRYP_FORCE_RESET, CALL_HAL_RCC_CRYP_RELEASE_RESET,
                                 K_SEM_GIVE session_sem]"
  by (simp add: crypto_stm32_session_free_def CRYPTO_STM32_SESSN_def session_free_loop.simps
        Let_def driver_of_def update_session_def k_sem_take_def k_sem_give_def log_event_def
        CRYPTO_MAX_SESSION_def)

text \<open>
  C5 as the code has it. A free call on a bound context takes the pool lock
  (\<open>session_sem\<close>) and gives it back last. In between it calls \<open>HAL_CRYP_DeInit\<close>, exactly
  when no other slot is in use, and resets the peripheral when the deinitialisation
  reports ok. The call never takes the device lock (\<open>device_sem\<close>).
\<close>

theorem session_free_deinit_under_pool_lock:
  assumes "drv_sessn_state ctx = Some i" and "i < CRYPTO_MAX_SESSION st"
  shows "\<exists>ret st' evs. crypto_stm32_session_free p st dev ctx = Returns (ret, st')
     \<and> trace st' = trace st @ [K_SEM_TAKE session_sem] @ evs @ [K_SEM_GIVE session_sem]
     \<and> K_SEM_TAKE device_sem \<notin> set evs \<and> K_SEM_GIVE session_sem \<notin> set evs
     \<and> (CALL_HAL_CRYP_DeInit \<in> set evs \<longleftrightarrow>
          \<not> (\<exists>j<CRYPTO_MAX_SESSION st. j \<noteq> i \<and> in_use (crypto_stm32_sessions st ! j)))
     \<and> evs = (if \<exists>j<CRYPTO_MAX_SESSION st. j \<noteq> i \<and> in_use (crypto_stm32_sessions st ! j) then []
                else if fst (HAL_CRYP_DeInit p (hcryp st)) \<noteq> HAL_OK then [CALL_HAL_CRYP_DeInit]
                else [CALL_HAL_CRYP_DeInit, CALL_HAL_RCC_CRYP_FORCE_RESET,
                      CALL_HAL_RCC_CRYP_RELEASE_RESET])"
proof -
  define other where "other \<longleftrightarrow> (\<exists>j<CRYPTO_MAX_SESSION st. j \<noteq> i \<and> in_use (crypto_stm32_sessions st ! j))"
  obtain status h where d: "HAL_CRYP_DeInit p (hcryp st) = (status, h)"
    by (cases "HAL_CRYP_DeInit p (hcryp st)") auto
  define evs where "evs = (if other then [] else if status \<noteq> HAL_OK then [CALL_HAL_CRYP_DeInit]
      else [CALL_HAL_CRYP_DeInit, CALL_HAL_RCC_CRYP_FORCE_RESET, CALL_HAL_RCC_CRYP_RELEASE_RESET])"
  note eq = session_free_eq [OF assms other_def, of p dev]
  have "\<exists>ret st'. crypto_stm32_session_free p st dev ctx = Returns (ret, st')
     \<and> trace st' = trace st @ [K_SEM_TAKE session_sem] @ evs @ [K_SEM_GIVE session_sem]"
  proof (cases other)
    case True
    then show ?thesis by (simp add: eq Let_def evs_def)
  next
    case False
    then show ?thesis
      by (cases "status = HAL_OK") (simp_all add: eq d Let_def evs_def)
  qed
  moreover have "K_SEM_TAKE device_sem \<notin> set evs" "K_SEM_GIVE session_sem \<notin> set evs"
    "CALL_HAL_CRYP_DeInit \<in> set evs \<longleftrightarrow> \<not> other"
    by (simp_all add: evs_def)
  moreover have "evs = (if other then []
                else if fst (HAL_CRYP_DeInit p (hcryp st)) \<noteq> HAL_OK then [CALL_HAL_CRYP_DeInit]
                else [CALL_HAL_CRYP_DeInit, CALL_HAL_RCC_CRYP_FORCE_RESET,
                      CALL_HAL_RCC_CRYP_RELEASE_RESET])"
    by (simp add: evs_def d)
  ultimately show ?thesis unfolding other_def by blast
qed

theorem session_free_deinit_under_pool_lock_witness:
  "drv_sessn_state (bound_ctx 0) = Some 0
   \<and> 0 < CRYPTO_MAX_SESSION (driver_of HAL_CRYP_STATE_READY [bound_slot, free_slot])
   \<and> 0 < CRYPTO_MAX_SESSION (driver_of HAL_CRYP_STATE_READY [bound_slot, bound_slot])
   \<and> (\<exists>ret st'. crypto_stm32_session_free loopback_platform
          (driver_of HAL_CRYP_STATE_READY [bound_slot, free_slot]) 0 (bound_ctx 0) = Returns (ret, st')
        \<and> trace st' = [K_SEM_TAKE session_sem, CALL_HAL_CRYP_DeInit, CALL_HAL_RCC_CRYP_FORCE_RESET,
                        CALL_HAL_RCC_CRYP_RELEASE_RESET, K_SEM_GIVE session_sem])
   \<and> (\<exists>ret st'. crypto_stm32_session_free loopback_platform
          (driver_of HAL_CRYP_STATE_READY [bound_slot, bound_slot]) 0 (bound_ctx 0) = Returns (ret, st')
        \<and> trace st' = [K_SEM_TAKE session_sem, K_SEM_GIVE session_sem])"
proof -
  let ?S = "driver_of HAL_CRYP_STATE_READY [bound_slot, free_slot]"
  let ?T = "driver_of HAL_CRYP_STATE_READY [bound_slot, bound_slot]"
  have b: "drv_sessn_state (bound_ctx 0) = Some 0" by simp
  have n: "0 < CRYPTO_MAX_SESSION ?S" "0 < CRYPTO_MAX_SESSION ?T" by simp_all
  have last: "\<not> (\<exists>j<CRYPTO_MAX_SESSION ?S. j \<noteq> 0 \<and> in_use (crypto_stm32_sessions ?S ! j))"
    by (auto simp: less_Suc_eq)
  have other: "\<exists>j<CRYPTO_MAX_SESSION ?T. j \<noteq> 0 \<and> in_use (crypto_stm32_sessions ?T ! j)"
    by (rule exI [of _ 1]) simp
  from session_free_deinit_under_pool_lock [OF b n(1), of loopback_platform 0] obtain ret st' evs where
    "crypto_stm32_session_free loopback_platform ?S 0 (bound_ctx 0) = Returns (ret, st')"
    "trace st' = trace ?S @ [K_SEM_TAKE session_sem] @ evs @ [K_SEM_GIVE session_sem]"
    "evs = (if \<exists>j<CRYPTO_MAX_SESSION ?S. j \<noteq> 0 \<and> in_use (crypto_stm32_sessions ?S ! j) then []
                else if fst (HAL_CRYP_DeInit loopback_platform (hcryp ?S)) \<noteq> HAL_OK then [CALL_HAL_CRYP_DeInit]
                else [CALL_HAL_CRYP_DeInit, CALL_HAL_RCC_CRYP_FORCE_RESET,
                      CALL_HAL_RCC_CRYP_RELEASE_RESET])"
    by blast
  with last have 1: "\<exists>ret st'. crypto_stm32_session_free loopback_platform ?S 0 (bound_ctx 0) = Returns (ret, st')
        \<and> trace st' = [K_SEM_TAKE session_sem, CALL_HAL_CRYP_DeInit, CALL_HAL_RCC_CRYP_FORCE_RESET,
                        CALL_HAL_RCC_CRYP_RELEASE_RESET, K_SEM_GIVE session_sem]"
    by (simp del: not_ex)
  from session_free_deinit_under_pool_lock [OF b n(2), of loopback_platform 0] obtain ret st' evs where
    "crypto_stm32_session_free loopback_platform ?T 0 (bound_ctx 0) = Returns (ret, st')"
    "trace st' = trace ?T @ [K_SEM_TAKE session_sem] @ evs @ [K_SEM_GIVE session_sem]"
    "evs = (if \<exists>j<CRYPTO_MAX_SESSION ?T. j \<noteq> 0 \<and> in_use (crypto_stm32_sessions ?T ! j) then []
                else if fst (HAL_CRYP_DeInit loopback_platform (hcryp ?T)) \<noteq> HAL_OK then [CALL_HAL_CRYP_DeInit]
                else [CALL_HAL_CRYP_DeInit, CALL_HAL_RCC_CRYP_FORCE_RESET,
                      CALL_HAL_RCC_CRYP_RELEASE_RESET])"
    by blast
  with other have 2: "\<exists>ret st'. crypto_stm32_session_free loopback_platform ?T 0 (bound_ctx 0) = Returns (ret, st')
        \<and> trace st' = [K_SEM_TAKE session_sem, K_SEM_GIVE session_sem]"
    by (simp del: ex_simps)
  from b n 1 2 show ?thesis by (intro conjI)
qed

subsection \<open>The life of a session\<close>

text \<open>
  C9. A setup that returns 0 took a slot that was not in use, marked it in use and bound
  the context to it, and changed the flag of no other slot; a setup that returns an error
  leaves every flag and the context as they were. In particular, when the parameters are
  supported, a slot is free, the handle is in reset and \<open>HAL_CRYP_Init\<close> fails, the setup
  claims the slot, calls the initialisation, and returns \<open>-EIO\<close> with every flag as
  before. A free call on a bound context clears the flag of its slot and of no other.
\<close>

theorem session_state_machine:
  "(crypto_stm32_session_setup p st dev ctx algo mode op_type = Returns (ret, st', ctx') \<longrightarrow>
      (if ret = 0
       then (\<exists>i<CRYPTO_MAX_SESSION st. \<not> in_use (crypto_stm32_sessions st ! i)
               \<and> drv_sessn_state ctx' = Some i
               \<and> map in_use (crypto_stm32_sessions st') = (map in_use (crypto_stm32_sessions st))[i := True])
       else map in_use (crypto_stm32_sessions st') = map in_use (crypto_stm32_sessions st) \<and> ctx' = ctx))
   \<and> ((ucast (flags ctx) :: u32) AND NOT (CRYP_SUPPORT p) = 0
        \<and> algo = CRYPTO_CIPHER_ALGO_AES
        \<and> mode \<in> {CRYPTO_CIPHER_MODE_ECB, CRYPTO_CIPHER_MODE_CBC, CRYPTO_CIPHER_MODE_CTR}
        \<and> keylen ctx \<in> {16, 24, 32}
        \<and> (\<exists>j<CRYPTO_MAX_SESSION st. \<not> in_use (crypto_stm32_sessions st ! j))
        \<and> State (hcryp st) = HAL_CRYP_STATE_RESET
        \<and> fst (HAL_CRYP_Init p (hcryp st)) \<noteq> HAL_OK \<longrightarrow>
        (\<exists>st1. crypto_stm32_session_setup p st dev ctx algo mode op_type = Returns (- EIO, st1, ctx)
            \<and> map in_use (crypto_stm32_sessions st1) = map in_use (crypto_stm32_sessions st)
            \<and> trace st1 = trace st @ [K_SEM_TAKE session_sem, K_SEM_GIVE session_sem, CALL_HAL_CRYP_Init]))
   \<and> (drv_sessn_state ctxf = Some i \<and> i < CRYPTO_MAX_SESSION st \<longrightarrow>
        (\<exists>r st2. crypto_stm32_session_free p st dev ctxf = Returns (r, st2)
            \<and> map in_use (crypto_stm32_sessions st2) = (map in_use (crypto_stm32_sessions st))[i := False]))"
proof (intro conjI impI)
  assume r: "crypto_stm32_session_setup p st dev ctx algo mode op_type = Returns (ret, st', ctx')"
  define k where "k = first_unused (crypto_stm32_sessions st)"
  note R = session_setup_Returns [OF r, folded k_def]
  show "if ret = 0
       then (\<exists>i<CRYPTO_MAX_SESSION st. \<not> in_use (crypto_stm32_sessions st ! i)
               \<and> drv_sessn_state ctx' = Some i
               \<and> map in_use (crypto_stm32_sessions st') = (map in_use (crypto_stm32_sessions st))[i := True])
       else map in_use (crypto_stm32_sessions st') = map in_use (crypto_stm32_sessions st) \<and> ctx' = ctx"
  proof (cases "ret = 0")
    case True
    with R have k: "k < CRYPTO_MAX_SESSION st" "drv_sessn_state ctx' = Some k"
      "map in_use (crypto_stm32_sessions st') = (map in_use (crypto_stm32_sessions st))[k := True]"
      by simp_all
    from k(1) first_unused_at [of "crypto_stm32_sessions st"]
    have "\<not> in_use (crypto_stm32_sessions st ! k)"
      by (simp add: k_def CRYPTO_MAX_SESSION_def)
    with k True show ?thesis by auto
  next
    case False
    with R show ?thesis by simp
  qed
next
  assume a: "(ucast (flags ctx) :: u32) AND NOT (CRYP_SUPPORT p) = 0
        \<and> algo = CRYPTO_CIPHER_ALGO_AES
        \<and> mode \<in> {CRYPTO_CIPHER_MODE_ECB, CRYPTO_CIPHER_MODE_CBC, CRYPTO_CIPHER_MODE_CTR}
        \<and> keylen ctx \<in> {16, 24, 32}
        \<and> (\<exists>j<CRYPTO_MAX_SESSION st. \<not> in_use (crypto_stm32_sessions st ! j))
        \<and> State (hcryp st) = HAL_CRYP_STATE_RESET
        \<and> fst (HAL_CRYP_Init p (hcryp st)) \<noteq> HAL_OK"
  then have sup: "(ucast (flags ctx) :: u32) AND NOT (CRYP_SUPPORT p) = 0"
      "algo = CRYPTO_CIPHER_ALGO_AES"
      "mode \<in> {CRYPTO_CIPHER_MODE_ECB, CRYPTO_CIPHER_MODE_CBC, CRYPTO_CIPHER_MODE_CTR}"
      "keylen ctx \<in> {16, 24, 32}"
    and fr: "\<exists>j<CRYPTO_MAX_SESSION st. \<not> in_use (crypto_stm32_sessions st ! j)"
    and reset: "State (hcryp st) = HAL_CRYP_STATE_RESET"
    and bad: "fst (HAL_CRYP_Init p (hcryp st)) \<noteq> HAL_OK"
    by simp_all
  define ss where "ss = crypto_stm32_sessions st"
  have "first_unused ss \<noteq> length ss"
    using fr nth_mem [of _ ss] by (auto simp: first_unused_full ss_def CRYPTO_MAX_SESSION_def)
  with first_unused_le [of ss] have "first_unused (crypto_stm32_sessions st) < CRYPTO_MAX_SESSION st"
    by (simp add: ss_def CRYPTO_MAX_SESSION_def)
  from session_setup_init_fails [OF sup this reset bad]
  show "\<exists>st1. crypto_stm32_session_setup p st dev ctx algo mode op_type = Returns (- EIO, st1, ctx)
            \<and> map in_use (crypto_stm32_sessions st1) = map in_use (crypto_stm32_sessions st)
            \<and> trace st1 = trace st @ [K_SEM_TAKE session_sem, K_SEM_GIVE session_sem, CALL_HAL_CRYP_Init]" .
next
  assume "drv_sessn_state ctxf = Some i \<and> i < CRYPTO_MAX_SESSION st"
  then have b: "drv_sessn_state ctxf = Some i" "i < CRYPTO_MAX_SESSION st" by simp_all
  from session_free_Returns [OF b, of p dev] obtain r st2 where
    f: "crypto_stm32_session_free p st dev ctxf = Returns (r, st2)"
    and s: "crypto_stm32_sessions st2 =
          (crypto_stm32_sessions st)[i := (crypto_stm32_sessions st ! i)\<lparr>in_use := False\<rparr>]" by blast
  have "map in_use (crypto_stm32_sessions st2) = (map in_use (crypto_stm32_sessions st))[i := False]"
    by (simp add: s map_update)
  with f show "\<exists>r st2. crypto_stm32_session_free p st dev ctxf = Returns (r, st2)
            \<and> map in_use (crypto_stm32_sessions st2) = (map in_use (crypto_stm32_sessions st))[i := False]"
    by blast
qed

theorem session_state_machine_witness:
  "(\<exists>st' ctx' i. crypto_stm32_session_setup loopback_platform
         (driver_of HAL_CRYP_STATE_RESET [free_slot, free_slot]) 0 aes128_ctx
         CRYPTO_CIPHER_ALGO_AES CRYPTO_CIPHER_MODE_CBC CRYPTO_CIPHER_OP_ENCRYPT = Returns (0, st', ctx')
       \<and> drv_sessn_state ctx' = Some i
       \<and> map in_use (crypto_stm32_sessions st') = [False, False][i := True])
   \<and> (\<exists>st1. crypto_stm32_session_setup faulty_platform
         (driver_of HAL_CRYP_STATE_RESET [free_slot, free_slot]) 0 aes128_ctx
         CRYPTO_CIPHER_ALGO_AES CRYPTO_CIPHER_MODE_CBC CRYPTO_CIPHER_OP_ENCRYPT = Returns (- EIO, st1, aes128_ctx)
       \<and> map in_use (crypto_stm32_sessions st1) = [False, False])
   \<and> (\<exists>r st2. crypto_stm32_session_free loopback_platform
         (driver_of HAL_CRYP_STATE_READY [bound_slot, free_slot]) 0 (bound_ctx 0) = Returns (r, st2)
       \<and> map in_use (crypto_stm32_sessions st2) = [False, False])"
proof -
  let ?S = "driver_of HAL_CRYP_STATE_RESET [free_slot, free_slot]"
  let ?B = "driver_of HAL_CRYP_STATE_READY [bound_slot, free_slot]"
  have "\<exists>st' ctx'. crypto_stm32_session_setup loopback_platform ?S 0 aes128_ctx
         CRYPTO_CIPHER_ALGO_AES CRYPTO_CIPHER_MODE_CBC CRYPTO_CIPHER_OP_ENCRYPT = Returns (0, st', ctx')"
    by (rule session_setup_succeeds) simp_all
  then obtain s1 c1 where e: "crypto_stm32_session_setup loopback_platform ?S 0 aes128_ctx
         CRYPTO_CIPHER_ALGO_AES CRYPTO_CIPHER_MODE_CBC CRYPTO_CIPHER_OP_ENCRYPT = Returns (0, s1, c1)"
    by blast
  from session_state_machine [of loopback_platform ?S 0 aes128_ctx CRYPTO_CIPHER_ALGO_AES
      CRYPTO_CIPHER_MODE_CBC CRYPTO_CIPHER_OP_ENCRYPT 0 s1 c1, THEN conjunct1, THEN mp, OF e]
  have 1: "\<exists>i. drv_sessn_state c1 = Some i \<and> map in_use (crypto_stm32_sessions s1) = [False, False][i := True]"
    by auto
  have free: "\<exists>j<CRYPTO_MAX_SESSION ?S. \<not> in_use (crypto_stm32_sessions ?S ! j)"
    by (rule exI [of _ 0]) simp
  have h2: "(ucast (flags aes128_ctx) :: u32) AND NOT (CRYP_SUPPORT faulty_platform) = 0
        \<and> CRYPTO_CIPHER_ALGO_AES = CRYPTO_CIPHER_ALGO_AES
        \<and> CRYPTO_CIPHER_MODE_CBC \<in> {CRYPTO_CIPHER_MODE_ECB, CRYPTO_CIPHER_MODE_CBC, CRYPTO_CIPHER_MODE_CTR}
        \<and> keylen aes128_ctx \<in> {16, 24, 32}
        \<and> (\<exists>j<CRYPTO_MAX_SESSION ?S. \<not> in_use (crypto_stm32_sessions ?S ! j))
        \<and> State (hcryp ?S) = HAL_CRYP_STATE_RESET
        \<and> fst (HAL_CRYP_Init faulty_platform (hcryp ?S)) \<noteq> HAL_OK"
    using free by simp
  from session_state_machine [of faulty_platform ?S 0 aes128_ctx CRYPTO_CIPHER_ALGO_AES
      CRYPTO_CIPHER_MODE_CBC CRYPTO_CIPHER_OP_ENCRYPT, THEN conjunct2, THEN conjunct1, THEN mp, OF h2]
  have 2: "\<exists>st1. crypto_stm32_session_setup faulty_platform ?S 0 aes128_ctx
         CRYPTO_CIPHER_ALGO_AES CRYPTO_CIPHER_MODE_CBC CRYPTO_CIPHER_OP_ENCRYPT = Returns (- EIO, st1, aes128_ctx)
       \<and> map in_use (crypto_stm32_sessions st1) = [False, False]"
    by auto
  have h3: "drv_sessn_state (bound_ctx 0) = Some 0 \<and> 0 < CRYPTO_MAX_SESSION ?B" by simp
  from session_state_machine [of loopback_platform ?B 0 _ _ _ _ _ _ _ "bound_ctx 0" 0,
      THEN conjunct2, THEN conjunct2, THEN mp, OF h3]
  have 3: "\<exists>r st2. crypto_stm32_session_free loopback_platform ?B 0 (bound_ctx 0) = Returns (r, st2)
       \<and> map in_use (crypto_stm32_sessions st2) = [False, False]"
    by simp
  from e 1 2 3 show ?thesis by blast
qed

subsection \<open>Exhaustion of the pool\<close>

lemma count_true_update:
  assumes "k < length m" and "\<not> m ! k"
  shows "length (filter id (m[k := True])) = Suc (length (filter id m))"
proof -
  have a: "m[k := True] = take k m @ True # drop (Suc k) m"
    using assms(1) by (rule upd_conv_take_nth_drop)
  have b: "m = take k m @ m ! k # drop (Suc k) m"
    using assms(1) by (rule id_take_nth_drop)
  have "length (filter id m) = length (filter id (take k m)) + length (filter id (drop (Suc k) m))"
    using assms(2) by (subst b) simp
  moreover have "length (filter id (m[k := True]))
      = Suc (length (filter id (take k m)) + length (filter id (drop (Suc k) m)))"
    by (subst a) simp
  ultimately show ?thesis by simp
qed

lemma count_in_use_update:
  fixes ss ss' :: "crypto_stm32_session list"
  assumes "k < length ss" and "\<not> in_use (ss ! k)"
    and "map in_use ss' = (map in_use ss)[k := True]"
  shows "length (filter in_use ss') = Suc (length (filter in_use ss))"
proof -
  have f: "length (filter in_use xs) = length (filter id (map in_use xs))" for xs :: "crypto_stm32_session list"
    by (simp add: filter_map comp_def)
  have "length (filter id ((map in_use ss)[k := True])) = Suc (length (filter id (map in_use ss)))"
    by (rule count_true_update) (use assms(1,2) in simp_all)
  then have "length (filter id (map in_use ss')) = Suc (length (filter id (map in_use ss)))"
    by (simp only: assms(3))
  then show ?thesis by (simp only: f [symmetric])
qed

lemma all_if_count:
  assumes "length (filter P xs) = length xs"
  shows "\<forall>x\<in>set xs. P x"
proof -
  have "length (filter P xs) + length (filter (\<lambda>x. \<not> P x) xs) = length xs"
    by (rule sum_length_filter_compl)
  with assms have "filter (\<lambda>x. \<not> P x) xs = []" by simp
  then show ?thesis by (simp add: filter_empty_conv)
qed

lemma begin_sessions_count:
  assumes "begin_sessions p st reqs = Some st1"
  shows "length (crypto_stm32_sessions st1) = length (crypto_stm32_sessions st)
     \<and> map (\<lambda>s. length (key s)) (crypto_stm32_sessions st1)
         = map (\<lambda>s. length (key s)) (crypto_stm32_sessions st)
     \<and> length (filter in_use (crypto_stm32_sessions st1))
         = length (filter in_use (crypto_stm32_sessions st)) + length reqs"
  using assms
proof (induction reqs arbitrary: st)
  case Nil
  then show ?case by simp
next
  case (Cons rq reqs)
  obtain dev ctx algo mode op_type where rq: "rq = (dev, ctx, algo, mode, op_type)"
    by (cases rq) auto
  from Cons.prems rq obtain st' ctx' where
    s: "crypto_stm32_session_setup p st dev ctx algo mode op_type = Returns (0, st', ctx')"
    and rest: "begin_sessions p st' reqs = Some st1"
    by (auto split: outcome.splits if_splits)
  define ss where "ss = crypto_stm32_sessions st"
  define k where "k = first_unused ss"
  from session_setup_Returns [OF s]
  have R: "length (crypto_stm32_sessions st') = length ss"
    "map (\<lambda>s. length (key s)) (crypto_stm32_sessions st') = map (\<lambda>s. length (key s)) ss"
    "k < CRYPTO_MAX_SESSION st"
    "map in_use (crypto_stm32_sessions st') = (map in_use ss)[k := True]"
    by (simp_all add: ss_def k_def)
  have kl: "k < length ss" using R(3) by (simp add: CRYPTO_MAX_SESSION_def ss_def)
  have nu: "\<not> in_use (ss ! k)"
    using first_unused_at [of ss] kl by (simp add: k_def)
  note c = count_in_use_update [OF kl nu R(4)]
  from Cons.IH [OF rest]
  have I: "length (crypto_stm32_sessions st1) = length (crypto_stm32_sessions st')"
    "map (\<lambda>s. length (key s)) (crypto_stm32_sessions st1)
         = map (\<lambda>s. length (key s)) (crypto_stm32_sessions st')"
    "length (filter in_use (crypto_stm32_sessions st1))
         = length (filter in_use (crypto_stm32_sessions st')) + length reqs"
    by simp_all
  have 1: "length (crypto_stm32_sessions st1) = length (crypto_stm32_sessions st)"
    using I(1) R(1) by (simp only: ss_def)
  have 2: "map (\<lambda>s. length (key s)) (crypto_stm32_sessions st1)
         = map (\<lambda>s. length (key s)) (crypto_stm32_sessions st)"
    using I(2) R(2) by (simp only: ss_def)
  have 3: "length (filter in_use (crypto_stm32_sessions st1))
         = length (filter in_use (crypto_stm32_sessions st)) + length (rq # reqs)"
    using I(3) c by (simp add: ss_def)
  from 1 2 3 show ?case by blast
qed




end
